theory Spec2Isabelle
  imports Main "HOL-Library.Sublist"
begin

section \<open>Data model of the desktop monitor (tweet\_monitor\_gui.pyw)\<close>

text \<open>
  A naive \<open>datetime\<close> is a point on the proleptic Gregorian calendar with microsecond
  resolution and no time zone. It is modelled as the number of microseconds since
  0001-01-01 00:00:00; comparison of datetimes is comparison of these numbers, and a
  calendar day is exactly \<open>86400000000\<close> microseconds long.
\<close>

type_synonym timestamp = int

definition day_us :: int where
  "day_us = 86400000000"

text \<open>\<open>now.replace(hour=0, minute=0, second=0, microsecond=0)\<close>\<close>

definition start_of_day :: "timestamp \<Rightarrow> timestamp" where
  "start_of_day now = now - now mod day_us"

text \<open>
  The Python values that travel through the account-info dictionary: \<open>None\<close>, integers
  and strings. \<open>truthy\<close> is Python's truth test on them.
\<close>

datatype pyval = PNone | PInt int | PStr string

fun truthy :: "pyval \<Rightarrow> bool" where
  "truthy PNone = False"
| "truthy (PInt n) = (n \<noteq> 0)"
| "truthy (PStr s) = (s \<noteq> [])"

text \<open>The dictionary returned by \<open>get_user_info\<close>; \<open>map_of\<close> is \<open>dict.get\<close>.\<close>

type_synonym info_dict = "(string \<times> pyval) list"

definition dict_get :: "info_dict \<Rightarrow> string \<Rightarrow> pyval" where
  "dict_get d k = (case map_of d k of None \<Rightarrow> PNone | Some v \<Rightarrow> v)"

definition dict_get_default :: "info_dict \<Rightarrow> string \<Rightarrow> pyval \<Rightarrow> pyval" where
  "dict_get_default d k dflt = (case map_of d k of None \<Rightarrow> dflt | Some v \<Rightarrow> v)"

text \<open>The \<open>Tweet\<close> objects handed over by the data source (attributes read by the GUI).\<close>

record tweet =
  tweet_id :: string
  created_at :: timestamp
  kind :: string
  tweet_text :: string
  retweet_count :: int
  like_count :: int
  reply_count :: int

text \<open>The \<open>TwitterAPI\<close> object: the GUI reads its \<open>demo_mode\<close> attribute only.\<close>

record twitter_api =
  demo_mode :: bool

text \<open>The three kinds of dictionaries put on the queue \<open>_q\<close>.\<close>

record update_payload =
  u_now :: timestamp
  u_tweets :: "tweet list"
  u_new :: "tweet list"
  u_today :: nat
  u_period :: nat
  u_info :: "info_dict option"

datatype msg = UpdateMsg update_payload | RangeMsg nat | ErrorMsg string

text \<open>
  Background threads. A thread is an entry of the process's thread table; the fields
  \<open>_poll_thread\<close> and \<open>_range_thread\<close> hold indices into it. The poll thread's control
  point is one of: before the entry assertion, at the \<open>while self.running\<close> test,
  inside the \<open>try\<close> block with the fetch in flight, in the interruptible sleep with a
  number of \<open>0.1\<close>-second rounds left, or returned. The range worker is either still
  running its call or has returned.
\<close>

datatype poll_pc = AtEntry | AtWhile | InTry | Sleeping nat | Returned

datatype thread =
    PollThread string int nat poll_pc
  | RangeWorker timestamp timestamp bool

fun thread_alive :: "thread \<Rightarrow> bool" where
  "thread_alive (PollThread u iv c pc) = (pc \<noteq> Returned)"
| "thread_alive (RangeWorker a b alive) = alive"

text \<open>Widgets: message boxes shown, the activity log, the mode label, the range label.\<close>

datatype dialog = ShowError string string | ShowInfo string string

datatype log_entry =
    LogReady
  | LogConnected string
  | LogStopped
  | LogCounting timestamp timestamp
  | LogNew tweet
  | LogRangeCount nat
  | LogError string

datatype mode_label = NotConnected | DemoMode | LiveMode

datatype range_label = RangeDash | RangePending | RangeShown nat

text \<open>
  The attributes of \<open>MonitorGUI\<close>, the widget variables it owns, and the thread table.
  Text variables hold the value they display rather than the rendered string; log
  lines are kept without their wall-clock prefix.
\<close>

record gui =
  api :: "twitter_api option"
  user_id :: pyval
  running :: bool
  monitoring_start :: "timestamp option"
  range_count :: "nat option"
  tweet_ids :: "string set"
  poll_thread :: "nat option"
  range_thread :: "nat option"
  q :: "msg list"
  threads :: "thread list"
  username_var :: string
  interval_var :: string
  range_start_var :: string
  range_end_var :: string
  mode_var :: mode_label
  start_btn_enabled :: bool
  stop_btn_enabled :: bool
  total_var :: pyval
  followers_var :: pyval
  following_var :: pyval
  today_var :: "nat option"
  period_var :: "nat option"
  last_update_var :: "timestamp option"
  range_var :: range_label
  tree :: "tweet list"
  log_lines :: "log_entry list"
  dialogs :: "dialog list"

text \<open>
  Library functions the module calls and that are not part of the repository:
  \<open>datetime.strptime\<close>, \<open>datetime.fromisoformat\<close> and \<open>int\<close> on a string. Each
  returns \<open>None\<close> where the Python function raises; the datetimes they return are
  naive ones.
\<close>

record pylib =
  strptime :: "string \<Rightarrow> string \<Rightarrow> timestamp option"
  fromisoformat :: "string \<Rightarrow> timestamp option"
  int_of_str :: "string \<Rightarrow> int option"

section \<open>String helpers\<close>

text \<open>
  \<open>str.strip()\<close> removes the characters for which \<open>isspace\<close> holds. A \<open>char\<close> is read
  as a code point below 256; among these the whitespace is the ASCII whitespace, the
  next-line character and the no-break space.
\<close>

definition isspace :: "char \<Rightarrow> bool" where
  "isspace c = (of_char c \<in> {9, 10, 11, 12, 13, 28, 29, 30, 31, 32, 133, 160 :: nat})"

definition strip :: "string \<Rightarrow> string" where
  "strip s = rev (dropWhile isspace (rev (dropWhile isspace s)))"

text \<open>\<open>s.lstrip("@")\<close>\<close>

definition lstrip_at :: "string \<Rightarrow> string" where
  "lstrip_at s = dropWhile (\<lambda>c. c = CHR ''@'') s"

text \<open>\<open>v.replace("T", " ")\<close>\<close>

definition replace_T :: "string \<Rightarrow> string" where
  "replace_T s = map (\<lambda>c. if c = CHR ''T'' then CHR '' '' else c) s"

section \<open>parse\_dt\<close>

definition parse_dt :: "pylib \<Rightarrow> string \<Rightarrow> timestamp option" where
  "parse_dt L v0 =
     (let v = strip v0 in
      if v = [] then None
      else
        let v2 = replace_T v in
        (case strptime L v2 ''%Y-%m-%d %H:%M:%S'' of
           Some d \<Rightarrow> Some d
         | None \<Rightarrow>
            (case strptime L v2 ''%Y-%m-%d %H:%M'' of
               Some d \<Rightarrow> Some d
             | None \<Rightarrow> fromisoformat L v)))"

section \<open>Small effects\<close>

definition q_put :: "msg \<Rightarrow> gui \<Rightarrow> gui" where
  "q_put m s = s\<lparr>q := q s @ [m]\<rparr>"

definition log_line :: "log_entry \<Rightarrow> gui \<Rightarrow> gui" where
  "log_line e s = s\<lparr>log_lines := log_lines s @ [e]\<rparr>"

definition showerror :: "string \<Rightarrow> string \<Rightarrow> gui \<Rightarrow> gui" where
  "showerror title m s = s\<lparr>dialogs := dialogs s @ [ShowError title m]\<rparr>"

definition showinfo :: "string \<Rightarrow> string \<Rightarrow> gui \<Rightarrow> gui" where
  "showinfo title m s = s\<lparr>dialogs := dialogs s @ [ShowInfo title m]\<rparr>"

definition spawn :: "thread \<Rightarrow> gui \<Rightarrow> gui" where
  "spawn t s = s\<lparr>threads := threads s @ [t]\<rparr>"

text \<open>\<open>thr is not None and thr.is_alive()\<close> for a thread handle.\<close>

definition handle_alive :: "thread list \<Rightarrow> nat option \<Rightarrow> bool" where
  "handle_alive ths h =
     (case h of None \<Rightarrow> False
      | Some i \<Rightarrow> i < length ths \<and> thread_alive (ths ! i))"

section \<open>MonitorGUI.\_\_init\_\_\<close>

text \<open>
  The four entry fields take their defaults from the process environment; the
  constructor logs \<open>Ready.\<close> and runs \<open>_drain_queue\<close> once on the empty queue.
\<close>

definition init :: "string \<Rightarrow> string \<Rightarrow> string \<Rightarrow> string \<Rightarrow> gui" where
  "init uname ival rstart rend =
     \<lparr>api = None, user_id = PNone, running = False, monitoring_start = None,
      range_count = None, tweet_ids = {}, poll_thread = None, range_thread = None,
      q = [], threads = [],
      username_var = uname, interval_var = ival,
      range_start_var = rstart, range_end_var = rend,
      mode_var = NotConnected, start_btn_enabled = True, stop_btn_enabled = False,
      total_var = PStr ''-'', followers_var = PStr ''-'', following_var = PStr ''-'',
      today_var = None, period_var = None, last_update_var = None,
      range_var = RangeDash, tree = [], log_lines = [LogReady], dialogs = []\<rparr>"

section \<open>MonitorGUI.start\<close>

text \<open>
  The calls into the data source made by \<open>start\<close> are answered by the environment:
  the result of the constructor \<open>TwitterAPI()\<close>, the result of \<open>get_user_info\<close>
  (\<open>Inl\<close> carries \<open>str(e)\<close> of a raised exception) and the clock.
\<close>

definition start ::
  "pylib \<Rightarrow> string + twitter_api \<Rightarrow> string + info_dict option \<Rightarrow> timestamp \<Rightarrow> gui \<Rightarrow> gui"
where
  "start L ctor info_res now s =
     (if running s then s
      else
        let username = lstrip_at (strip (username_var s)) in
        if username = [] then
          showerror ''Missing username'' ''Please enter a username to monitor.'' s
        else
          let txt = strip (interval_var s) in
          (case int_of_str L (if txt = [] then ''60'' else txt) of
             None \<Rightarrow>
               showerror ''Invalid interval'' ''Interval must be a number (seconds).'' s
           | Some n \<Rightarrow>
               let interval = max 5 n in
               (case ctor of
                  Inl e \<Rightarrow> showerror ''Failed to start'' e s
                | Inr a \<Rightarrow>
                    let s1 = s\<lparr>api := Some a\<rparr> in
                    (case info_res of
                       Inl e \<Rightarrow> showerror ''Failed to start'' e s1
                     | Inr info \<Rightarrow>
                         let uid = (case info of None \<Rightarrow> PNone
                                    | Some d \<Rightarrow> if d = [] then PNone else dict_get d ''id'');
                             s2 = s1\<lparr>user_id := uid\<rparr>
                         in
                         if \<not> truthy uid then
                           showerror ''Failed to start'' ''Could not fetch user info.'' s2
                         else
                           let s3 = log_line (LogConnected username)
                                      (s2\<lparr>monitoring_start := Some now,
                                          tweet_ids := {},
                                          range_count := None,
                                          mode_var := (if demo_mode a then DemoMode else LiveMode)\<rparr>);
                               s4 = s3\<lparr>running := True,
                                       start_btn_enabled := False,
                                       stop_btn_enabled := True\<rparr>
                           in spawn (PollThread username interval 0 AtEntry)
                                (s4\<lparr>poll_thread := Some (length (threads s4))\<rparr>)))))"

section \<open>MonitorGUI.stop\<close>

definition stop :: "gui \<Rightarrow> gui" where
  "stop s =
     (if \<not> running s then s
      else log_line LogStopped
             (s\<lparr>running := False, start_btn_enabled := True, stop_btn_enabled := False\<rparr>))"

section \<open>MonitorGUI.\_poll\_loop\<close>

text \<open>
  What the environment answers during one pass through the \<open>try\<close> block: the result
  of \<open>get_recent_tweets\<close>, the result of \<open>get_user_info\<close> (consulted only when the
  refresh is due) and the clock.
\<close>

record poll_env =
  tweets_res :: "string + tweet list"
  info_res :: "string + info_dict option"
  clock :: timestamp

text \<open>
  \<open>(cycle % max(1, int(300 / max(1, interval)))) == 0 or cycle == 1\<close>. The quotient
  \<open>300 / m\<close> for an integer \<open>m \<ge> 1\<close> truncates to \<open>300 div m\<close>.
\<close>

definition refresh_due :: "int \<Rightarrow> nat \<Rightarrow> bool" where
  "refresh_due interval cycle =
     (int cycle mod max 1 (300 div max 1 interval) = 0 \<or> cycle = 1)"

text \<open>
  The loop of lines 212--216: \<open>ids\<close> is \<open>self._tweet_ids\<close>, \<open>new\<close> the list being
  appended to.
\<close>

fun collect_new :: "tweet list \<Rightarrow> string set \<Rightarrow> tweet list \<Rightarrow> string set \<times> tweet list" where
  "collect_new [] ids new = (ids, new)"
| "collect_new (t # ts) ids new =
     (if tweet_id t \<notin> ids then collect_new ts (insert (tweet_id t) ids) (new @ [t])
      else collect_new ts ids new)"

text \<open>Stands for \<open>str(e)\<close> of the \<open>AttributeError\<close> of a method call on \<open>None\<close>.\<close>

definition attribute_error :: string where
  "attribute_error = ''NoneType object has no attribute''"

text \<open>The body of the \<open>try\<close> statement with its \<open>except Exception\<close> handler.\<close>

definition poll_try :: "poll_env \<Rightarrow> string \<Rightarrow> int \<Rightarrow> nat \<Rightarrow> gui \<Rightarrow> gui" where
  "poll_try env username interval cycle s =
     (case api s of
        None \<Rightarrow> q_put (ErrorMsg attribute_error) s
      | Some a \<Rightarrow>
         (case tweets_res env of
            Inl e \<Rightarrow> q_put (ErrorMsg e) s
          | Inr tweets \<Rightarrow>
             (case (if refresh_due interval cycle then info_res env else Inr None) of
                Inl e \<Rightarrow> q_put (ErrorMsg e) s
              | Inr info \<Rightarrow>
                 let now = clock env;
                     today_start = start_of_day now;
                     mstart = (case monitoring_start s of Some m \<Rightarrow> m | None \<Rightarrow> now);
                     r = collect_new tweets (tweet_ids s) [];
                     today_count = length (filter (\<lambda>t. created_at t \<ge> today_start) tweets);
                     period_count = length (filter (\<lambda>t. created_at t \<ge> mstart) tweets)
                 in q_put (UpdateMsg \<lparr>u_now = now, u_tweets = tweets, u_new = snd r,
                                      u_today = today_count, u_period = period_count,
                                      u_info = info\<rparr>)
                      (s\<lparr>tweet_ids := fst r\<rparr>))))"

definition set_thread :: "nat \<Rightarrow> thread \<Rightarrow> gui \<Rightarrow> gui" where
  "set_thread i t s = s\<lparr>threads := (threads s)[i := t]\<rparr>"

text \<open>
  One control step of a thread running \<open>_poll_loop(username, interval)\<close>: the entry
  assertion, the \<open>while\<close> test (which also counts the cycle), the \<open>try\<close> block, or one
  round of the sleep loop \<open>for _ in range(int(interval * 10))\<close>. The \<open>try\<close> block is
  one step: while a single poll thread is alive no other thread reads or writes
  \<open>_tweet_ids\<close>, and \<open>Queue.put\<close> is atomic. The source holds no lock, so two poll
  threads alive at once (after a \<open>stop\<close> and a \<open>start\<close> that comes before the first
  thread has returned) could interleave inside the loop of lines 212--216 more finely
  than the steps here; what is stated about the dedup set is stated for a single poll
  thread.
\<close>

fun poll_loop :: "poll_env \<Rightarrow> nat \<Rightarrow> string \<Rightarrow> int \<Rightarrow> nat \<Rightarrow> poll_pc \<Rightarrow> gui \<Rightarrow> gui" where
  "poll_loop env i u iv c AtEntry s =
     (if api s \<noteq> None \<and> truthy (user_id s) then set_thread i (PollThread u iv c AtWhile) s
      else set_thread i (PollThread u iv c Returned) s)"
| "poll_loop env i u iv c AtWhile s =
     (if running s then set_thread i (PollThread u iv (c + 1) InTry) s
      else set_thread i (PollThread u iv c Returned) s)"
| "poll_loop env i u iv c InTry s =
     set_thread i (PollThread u iv c (Sleeping (nat (iv * 10)))) (poll_try env u iv c s)"
| "poll_loop env i u iv c (Sleeping 0) s = set_thread i (PollThread u iv c AtWhile) s"
| "poll_loop env i u iv c (Sleeping (Suc k)) s =
     (if \<not> running s then set_thread i (PollThread u iv c AtWhile) s
      else set_thread i (PollThread u iv c (Sleeping k)) s)"
| "poll_loop env i u iv c Returned s = s"

section \<open>MonitorGUI.count\_range and its worker\<close>

text \<open>
  The two parsed values are naive datetimes and are compared as such. A string with
  a UTC offset, which only the \<open>fromisoformat\<close> fallback accepts, would give an aware
  datetime; comparing it with a naive one raises at line 252, which ends the call with
  no box and no thread. Such a pair is outside this model.
\<close>

definition count_range :: "pylib \<Rightarrow> gui \<Rightarrow> gui" where
  "count_range L s =
     (if api s = None \<or> \<not> truthy (user_id s) then
        showinfo ''Not running'' ''Start monitoring first (so we know the user id).'' s
      else
        (case (parse_dt L (range_start_var s), parse_dt L (range_end_var s)) of
           (Some a, Some b) \<Rightarrow>
             if a \<ge> b then
               showerror ''Invalid range'' ''Range start must be before range end.'' s
             else
               let s1 = log_line (LogCounting a b) (s\<lparr>range_var := RangePending\<rparr>) in
               if handle_alive (threads s1) (range_thread s1) then s1
               else spawn (RangeWorker a b True)
                      (s1\<lparr>range_thread := Some (length (threads s1))\<rparr>)
         | _ \<Rightarrow>
             showerror ''Invalid range''
               ''Enter start/end like '2026-01-26 09:00' and '2026-01-26 18:00'.'' s))"

text \<open>
  The closure \<open>worker\<close>: \<open>res\<close> is what the call
  \<open>self.api.count_tweets_in_range(self.user_id, start, end)\<close> produced, \<open>Inl\<close> carrying
  \<open>str(e)\<close> of a raised exception.
\<close>

definition worker :: "string + nat \<Rightarrow> nat \<Rightarrow> timestamp \<Rightarrow> timestamp \<Rightarrow> gui \<Rightarrow> gui" where
  "worker res i a b s =
     set_thread i (RangeWorker a b False)
       (case api s of
          None \<Rightarrow> q_put (ErrorMsg attribute_error) s
        | Some api_obj \<Rightarrow>
           (case res of
              Inr n \<Rightarrow> q_put (RangeMsg n) s
            | Inl e \<Rightarrow> q_put (ErrorMsg e) s))"

section \<open>MonitorGUI.\_drain\_queue and \_apply\_update\<close>

definition apply_update :: "update_payload \<Rightarrow> gui \<Rightarrow> gui" where
  "apply_update p s =
     (let s1 = (case u_info p of
                  None \<Rightarrow> s
                | Some d \<Rightarrow>
                    if d = [] then s
                    else s\<lparr>total_var := dict_get_default d ''tweets'' (PStr ''-''),
                           followers_var := dict_get_default d ''followers'' (PStr ''-''),
                           following_var := dict_get_default d ''following'' (PStr ''-'')\<rparr>);
          s2 = s1\<lparr>today_var := Some (u_today p),
                  period_var := Some (u_period p),
                  last_update_var := Some (u_now p)\<rparr>;
          s3 = fold (\<lambda>t. log_line (LogNew t)) (u_new p) s2
      in s3\<lparr>tree := take 50 (sort_key (\<lambda>t. - created_at t) (u_tweets p))\<rparr>)"

fun dispatch :: "msg \<Rightarrow> gui \<Rightarrow> gui" where
  "dispatch (UpdateMsg p) s = apply_update p s"
| "dispatch (RangeMsg n) s =
     log_line (LogRangeCount n) (s\<lparr>range_count := Some n, range_var := RangeShown n\<rparr>)"
| "dispatch (ErrorMsg e) s = log_line (LogError e) s"

text \<open>\<open>while True: msg = self._q.get_nowait(); ...\<close> until the queue is empty.\<close>

fun drain :: "msg list \<Rightarrow> gui \<Rightarrow> gui" where
  "drain [] s = s"
| "drain (m # ms) s = drain ms (dispatch m s)"

definition drain_queue :: "gui \<Rightarrow> gui" where
  "drain_queue s = drain (q s) (s\<lparr>q := []\<rparr>)"

section \<open>Runs of the application\<close>

text \<open>
  What can happen next: a button is pressed, an entry field is edited, the periodic
  \<open>_drain_queue\<close> fires, or one of the background threads takes a step. Each action
  carries what the environment answers during it.
\<close>

datatype action =
    ClickStart "string + twitter_api" "string + info_dict option" timestamp
  | ClickStop
  | ClickCount
  | Drain
  | EditUsername string
  | EditInterval string
  | EditRangeStart string
  | EditRangeEnd string
  | PollStep nat poll_env
  | WorkerStep nat "string + nat"

fun exec :: "pylib \<Rightarrow> action \<Rightarrow> gui \<Rightarrow> gui" where
  "exec L (ClickStart ctor info_r now) s = start L ctor info_r now s"
| "exec L ClickStop s = stop s"
| "exec L ClickCount s = count_range L s"
| "exec L Drain s = drain_queue s"
| "exec L (EditUsername v) s = s\<lparr>username_var := v\<rparr>"
| "exec L (EditInterval v) s = s\<lparr>interval_var := v\<rparr>"
| "exec L (EditRangeStart v) s = s\<lparr>range_start_var := v\<rparr>"
| "exec L (EditRangeEnd v) s = s\<lparr>range_end_var := v\<rparr>"
| "exec L (PollStep i env) s =
     (if i < length (threads s) then
        (case threads s ! i of
           PollThread u iv c pc \<Rightarrow> poll_loop env i u iv c pc s
         | RangeWorker a b alive \<Rightarrow> s)
      else s)"
| "exec L (WorkerStep i res) s =
     (if i < length (threads s) then
        (case threads s ! i of
           RangeWorker a b alive \<Rightarrow> if alive then worker res i a b s else s
         | PollThread u iv c pc \<Rightarrow> s)
      else s)"

fun run :: "pylib \<Rightarrow> action list \<Rightarrow> gui \<Rightarrow> gui" where
  "run L [] s = s"
| "run L (a # as) s = run L as (exec L a s)"

text \<open>
  The messages an action puts on the queue. Only \<open>_drain_queue\<close> removes messages;
  every other action leaves the queue as it was or appends to it.
\<close>

definition emitted :: "pylib \<Rightarrow> action \<Rightarrow> gui \<Rightarrow> msg list" where
  "emitted L a s = (if a = Drain then [] else drop (length (q s)) (q (exec L a s)))"

fun run_emitted :: "pylib \<Rightarrow> action list \<Rightarrow> gui \<Rightarrow> msg list" where
  "run_emitted L [] s = []"
| "run_emitted L (a # as) s = emitted L a s @ run_emitted L as (exec L a s)"

text \<open>The ids of the \<open>new\<close> list of an update message.\<close>

fun new_ids :: "msg \<Rightarrow> string list" where
  "new_ids (UpdateMsg p) = map tweet_id (u_new p)"
| "new_ids (RangeMsg n) = []"
| "new_ids (ErrorMsg e) = []"

text \<open>
  A run stays within one monitoring session when no action in it turns \<open>running\<close>
  from false to true, which only a \<open>start\<close> that gets through does. A run in which
  \<open>running\<close> is false after every action contains no successful \<open>start\<close> at all.
\<close>

fun within_session :: "pylib \<Rightarrow> action list \<Rightarrow> gui \<Rightarrow> bool" where
  "within_session L [] s = True"
| "within_session L (a # as) s =
     ((running (exec L a s) \<longrightarrow> running s) \<and> within_session L as (exec L a s))"

fun never_started :: "pylib \<Rightarrow> action list \<Rightarrow> gui \<Rightarrow> bool" where
  "never_started L [] s = True"
| "never_started L (a # as) s =
     (\<not> running (exec L a s) \<and> never_started L as (exec L a s))"

fun live_worker :: "thread \<Rightarrow> bool" where
  "live_worker (RangeWorker a b alive) = alive"
| "live_worker (PollThread u iv c pc) = False"

text \<open>Every live range worker is the thread \<open>_range_thread\<close> refers to.\<close>

definition worker_inv :: "gui \<Rightarrow> bool" where
  "worker_inv s =
     (\<forall>j < length (threads s). live_worker (threads s ! j) \<longrightarrow> range_thread s = Some j)"

text \<open>
  The ids \<open>E\<close> are pairwise different, none of them is in the dedup set of \<open>s\<close>,
  and the dedup set of \<open>s'\<close> is that of \<open>s\<close> with \<open>E\<close> added.
\<close>

definition fresh_ids :: "string list \<Rightarrow> gui \<Rightarrow> gui \<Rightarrow> bool" where
  "fresh_ids E s s' =
     (distinct E \<and> set E \<inter> tweet_ids s = {} \<and> tweet_ids s' = tweet_ids s \<union> set E)"

text \<open>
  Once a thread exists or an account id is stored, a data source has been constructed
  and \<open>monitoring_start\<close> has been set.
\<close>

definition started_inv :: "gui \<Rightarrow> bool" where
  "started_inv s =
     (threads s \<noteq> [] \<or> truthy (user_id s) \<longrightarrow> api s \<noteq> None \<and> monitoring_start s \<noteq> None)"

text \<open>
  A poll thread that has not returned; a state with at most one of them. With a
  single poll thread, only that thread reads and writes \<open>_tweet_ids\<close> between a
  successful \<open>start\<close> and the next one.
\<close>

fun live_poller :: "thread \<Rightarrow> bool" where
  "live_poller (PollThread u iv c pc) = (pc \<noteq> Returned)"
| "live_poller (RangeWorker a b alive) = False"

definition single_poller :: "gui \<Rightarrow> bool" where
  "single_poller s = (length (filter live_poller (threads s)) \<le> 1)"

text \<open>
  The steps of the poll thread with index \<open>i\<close>; where a poll thread that was inside
  its \<open>try\<close> block stands after \<open>n\<close> steps of its own while \<open>running\<close> is clear; and
  the messages that the steps of thread \<open>i\<close> put on the queue during a run.
\<close>

fun is_step_of :: "nat \<Rightarrow> action \<Rightarrow> bool" where
  "is_step_of i (PollStep j env) = (j = i)"
| "is_step_of i a = False"

fun pc_after :: "int \<Rightarrow> nat \<Rightarrow> poll_pc" where
  "pc_after iv 0 = InTry"
| "pc_after iv (Suc 0) = Sleeping (nat (iv * 10))"
| "pc_after iv (Suc (Suc 0)) = AtWhile"
| "pc_after iv (Suc (Suc (Suc n))) = Returned"

fun emitted_by :: "pylib \<Rightarrow> nat \<Rightarrow> action list \<Rightarrow> gui \<Rightarrow> msg list" where
  "emitted_by L i [] s = []"
| "emitted_by L i (a # as) s =
     (if is_step_of i a then emitted L a s else []) @ emitted_by L i as (exec L a s)"

section \<open>The range counter of the data source\<close>

text \<open>
  Modelled from the spec: \<open>TwitterAPI.count_tweets_in_range\<close> is defined in
  \<open>tweet_monitor.py\<close>, which is not among the sources; the GUI only calls it. The
  definitions of this section follow the specification's Range Counter: the account's
  history is served newest first in pages, \<open>get_posts_page\<close> returns a page and the
  next cursor if there is one, and a fetch attempt either succeeds or fails with
  \<open>NotFound\<close>, \<open>RateLimited retry_after\<close> or \<open>TransportError\<close>.
\<close>

datatype failure = NotFound | RateLimited nat | TransportError string

text \<open>
  Modelled from the spec: the data source. \<open>pages_of\<close> gives the account's history,
  newest first, cut into pages; \<open>script\<close> lists the outcome of the successive fetch
  attempts (\<open>None\<close>: the attempt succeeds), and every attempt after the end of the
  script succeeds.
\<close>

record data_source =
  pages_of :: "pyval \<Rightarrow> tweet list list"
  script :: "failure option list"

text \<open>
  Modelled from the spec: \<open>get_posts_page(account_id, cursor)\<close>. The cursor is the
  number of the page; a cursor past the last page gives an empty page and no next
  cursor.
\<close>

definition get_posts_page :: "tweet list list \<Rightarrow> nat \<Rightarrow> tweet list \<times> nat option" where
  "get_posts_page pages cursor =
     (if cursor < length pages then pages ! cursor else [],
      if Suc cursor < length pages then Some (Suc cursor) else None)"

text \<open>
  Modelled from the spec: one fetch attempt, which consumes the next entry of the
  script and either returns the page or fails.
\<close>

fun fetch_page ::
  "failure option list \<Rightarrow> tweet list list \<Rightarrow> nat \<Rightarrow>
     (failure + tweet list \<times> nat option) \<times> failure option list"
where
  "fetch_page [] pages cursor = (Inr (get_posts_page pages cursor), [])"
| "fetch_page (None # sc) pages cursor = (Inr (get_posts_page pages cursor), sc)"
| "fetch_page (Some f # sc) pages cursor = (Inl f, sc)"

text \<open>Modelled from the spec: \<open>created_at\<close> lies in the closed interval \<open>[a, b]\<close>.\<close>

definition in_range :: "timestamp \<Rightarrow> timestamp \<Rightarrow> tweet \<Rightarrow> bool" where
  "in_range a b t = (a \<le> created_at t \<and> created_at t \<le> b)"

text \<open>
  Modelled from the spec: page through the history accumulating the count of posts
  with \<open>created_at\<close> in \<open>[a, b]\<close>; stop when the page's oldest post is older than
  \<open>a\<close> or when no further cursor is returned; on \<open>RateLimited\<close> retry the same
  page (the suspension itself takes time only); any other failure aborts the count.
\<close>

function range_counter ::
  "tweet list list \<Rightarrow> failure option list \<Rightarrow> nat \<Rightarrow> timestamp \<Rightarrow> timestamp \<Rightarrow> nat
     \<Rightarrow> failure + nat"
where
  "range_counter pages sc cursor a b acc =
     (case fetch_page sc pages cursor of
        (Inl (RateLimited r), sc') \<Rightarrow> range_counter pages sc' cursor a b acc
      | (Inl NotFound, sc') \<Rightarrow> Inl NotFound
      | (Inl (TransportError m), sc') \<Rightarrow> Inl (TransportError m)
      | (Inr (page, next), sc') \<Rightarrow>
          let acc' = acc + length (filter (in_range a b) page) in
          if page \<noteq> [] \<and> created_at (last page) < a then Inr acc'
          else (case next of
                  None \<Rightarrow> Inr acc'
                | Some c \<Rightarrow> range_counter pages sc' c a b acc'))"
  by pat_completeness auto
termination
proof (relation "measure (\<lambda>(pages, sc, cursor, a, b, acc). length sc + (length pages - cursor))")
  show "wf (measure (\<lambda>(pages, sc, cursor, a, b, acc). length sc + (length pages - cursor)))"
    by simp
next
  fix pages :: "tweet list list" and sc cursor and a b :: timestamp and acc :: nat
    and x sc' f r
  assume "(x, sc') = fetch_page sc pages cursor" "x = Inl f" "f = RateLimited r"
  then have "length sc' < length sc"
    by (induct sc pages cursor rule: fetch_page.induct) auto
  then show "((pages, sc', cursor, a, b, acc), (pages, sc, cursor, a, b, acc))
      \<in> measure (\<lambda>(pages, sc, cursor, a, b, acc). length sc + (length pages - cursor))"
    by simp
next
  fix pages :: "tweet list list" and sc cursor and a b :: timestamp and acc :: nat
    and x sc' pn page "next" acc' c
  assume h: "(x, sc') = fetch_page sc pages cursor" "x = Inr pn" "(page, next) = pn"
    "next = Some c"
  then have "length sc' \<le> length sc" and "pn = get_posts_page pages cursor"
    by (induct sc pages cursor rule: fetch_page.induct) auto
  with h have "c = Suc cursor" "Suc cursor < length pages"
    by (auto simp: get_posts_page_def split: if_splits)
  with \<open>length sc' \<le> length sc\<close>
  show "((pages, sc', c, a, b, acc'), (pages, sc, cursor, a, b, acc))
      \<in> measure (\<lambda>(pages, sc, cursor, a, b, acc). length sc + (length pages - cursor))"
    by simp
qed

declare range_counter.simps [simp del]

text \<open>Modelled from the spec: the failure description that reaches the caller.\<close>

definition failure_str :: "failure \<Rightarrow> string" where
  "failure_str f =
     (case f of NotFound \<Rightarrow> ''NotFound''
      | RateLimited r \<Rightarrow> ''RateLimited''
      | TransportError m \<Rightarrow> m)"

text \<open>
  Modelled from the spec: the call made by the GUI's worker, counting from the first
  page with an empty count; a failure surfaces as the raised exception's text.
\<close>

definition count_tweets_in_range ::
  "data_source \<Rightarrow> pyval \<Rightarrow> timestamp \<Rightarrow> timestamp \<Rightarrow> string + nat"
where
  "count_tweets_in_range ds uid a b =
     (case range_counter (pages_of ds uid) (script ds) 0 a b 0 of
        Inl f \<Rightarrow> Inl (failure_str f)
      | Inr n \<Rightarrow> Inr n)"

section \<open>Sample inputs\<close>

text \<open>
  A finite excerpt of the library's behaviour, enough to run the model on concrete
  entries: three wall-clock strings of 26 January 2026 with their values as
  microseconds since 0001-01-01, and three interval strings. In the samples below
  monitoring starts at 09:00 of that day (\<open>63905014800000000\<close>); midnight is
  \<open>63904982400000000\<close>, 08:00 is \<open>63905011200000000\<close> and 20:00 is
  \<open>63905054400000000\<close>.
\<close>

definition sample_lib :: pylib where
  "sample_lib =
     \<lparr>strptime = (\<lambda>v fmt.
         if fmt = ''%Y-%m-%d %H:%M'' then
           map_of [(''2026-01-26 09:00'', 63905014800000000),
                   (''2026-01-26 12:30'', 63905027400000000),
                   (''2026-01-26 18:00'', 63905047200000000)] v
         else None),
      fromisoformat = (\<lambda>v. None),
      int_of_str = map_of [(''5'', 5), (''60'', 60), (''1'', 1)]\<rparr>"

definition sample_tweet :: "string \<Rightarrow> timestamp \<Rightarrow> tweet" where
  "sample_tweet i t =
     \<lparr>tweet_id = i, created_at = t, kind = ''original'', tweet_text = ''hello'',
      retweet_count = 0, like_count = 0, reply_count = 0\<rparr>"

definition sample_initial :: gui where
  "sample_initial = init ''@nasa'' ''5'' ''2026-01-26 09:00'' ''2026-01-26 18:00''"

definition sample_api :: twitter_api where
  "sample_api = \<lparr>demo_mode = True\<rparr>"

definition sample_running :: gui where
  "sample_running =
     start sample_lib (Inr sample_api) (Inr (Some [(''id'', PStr ''42'')]))
       63905014800000000 sample_initial"

definition sample_counting :: gui where
  "sample_counting = count_range sample_lib sample_running"

text \<open>The poll thread of the running sample inside its first \<open>try\<close> block.\<close>

definition sample_polling :: gui where
  "sample_polling = sample_running\<lparr>threads := [PollThread ''nasa'' 5 1 InTry]\<rparr>"

text \<open>
  Two fetches: at 18:00 the source returns the posts of 12:30 and 08:00 and the account
  info; at 20:00 it returns a post of 18:00 and the post of 12:30 again.
\<close>

definition sample_env1 :: poll_env where
  "sample_env1 =
     \<lparr>tweets_res = Inr [sample_tweet ''t2'' 63905027400000000,
                         sample_tweet ''t1'' 63905011200000000],
      info_res = Inr (Some [(''id'', PStr ''42''), (''tweets'', PInt 10)]),
      clock = 63905047200000000\<rparr>"

definition sample_env2 :: poll_env where
  "sample_env2 =
     \<lparr>tweets_res = Inr [sample_tweet ''t3'' 63905047200000000,
                         sample_tweet ''t2'' 63905027400000000],
      info_res = Inr None,
      clock = 63905054400000000\<rparr>"

text \<open>A fetch that fails.\<close>

definition sample_env_fail :: poll_env where
  "sample_env_fail =
     \<lparr>tweets_res = Inl ''429 Too Many Requests'', info_res = Inr None,
      clock = 63905047200000000\<rparr>"

text \<open>The states and messages of a session of two ticks with the sleep between them.\<close>

definition sample_update1 :: update_payload where
  "sample_update1 =
     \<lparr>u_now = 63905047200000000,
      u_tweets = [sample_tweet ''t2'' 63905027400000000,
                  sample_tweet ''t1'' 63905011200000000],
      u_new = [sample_tweet ''t2'' 63905027400000000,
               sample_tweet ''t1'' 63905011200000000],
      u_today = 2, u_period = 1,
      u_info = Some [(''id'', PStr ''42''), (''tweets'', PInt 10)]\<rparr>"

definition sample_update2 :: update_payload where
  "sample_update2 =
     \<lparr>u_now = 63905054400000000,
      u_tweets = [sample_tweet ''t3'' 63905047200000000,
                  sample_tweet ''t2'' 63905027400000000],
      u_new = [sample_tweet ''t3'' 63905047200000000],
      u_today = 2, u_period = 2,
      u_info = None\<rparr>"

definition sample_slept :: gui where
  "sample_slept =
     sample_polling\<lparr>tweet_ids := {''t1'', ''t2''}, q := [UpdateMsg sample_update1],
        threads := [PollThread ''nasa'' 5 1 (Sleeping 50)]\<rparr>"

definition sample_polling2 :: gui where
  "sample_polling2 = sample_slept\<lparr>threads := [PollThread ''nasa'' 5 2 InTry]\<rparr>"

definition sample_done :: gui where
  "sample_done =
     sample_polling2\<lparr>tweet_ids := {''t3'', ''t1'', ''t2''},
        q := [UpdateMsg sample_update1, UpdateMsg sample_update2],
        threads := [PollThread ''nasa'' 5 2 (Sleeping 50)]\<rparr>"

definition sample_sleep :: "action list" where
  "sample_sleep =
     replicate 50 (PollStep 0 sample_env2) @ [PollStep 0 sample_env2, PollStep 0 sample_env2]"

definition sample_session :: "action list" where
  "sample_session = PollStep 0 sample_env1 # sample_sleep @ [PollStep 0 sample_env2]"

text \<open>From the constructor to the first \<open>try\<close> block of the poll thread.\<close>

definition sample_boot :: "action list" where
  "sample_boot =
     [ClickStart (Inr sample_api) (Inr (Some [(''id'', PStr ''42'')])) 63905014800000000,
      PollStep 0 sample_env1, PollStep 0 sample_env1]"

text \<open>
  A history of five posts in three pages, newest first, for the account \<open>42\<close>; the
  second fetch attempt is rate limited. The second run goes from the constructor to
  a live range worker for 09:00 to 18:00.
\<close>

definition sample_pages :: "tweet list list" where
  "sample_pages =
     [[sample_tweet ''p4'' 63905054400000000, sample_tweet ''p3'' 63905047200000000],
      [sample_tweet ''p2'' 63905027400000000, sample_tweet ''p1'' 63905011200000000],
      [sample_tweet ''p0'' 63904978800000000]]"

definition sample_source :: data_source where
  "sample_source =
     \<lparr>pages_of = (\<lambda>uid. if uid = PStr ''42'' then sample_pages else []),
      script = [None, Some (RateLimited 30), None]\<rparr>"

definition sample_count_boot :: "action list" where
  "sample_count_boot =
     [ClickStart (Inr sample_api) (Inr (Some [(''id'', PStr ''42'')])) 63905014800000000,
      ClickCount]"


definition sample_wind_down :: "action list" where
  "sample_wind_down =
     [Drain, PollStep 0 sample_env1, ClickCount, PollStep 0 sample_env2, Drain,
      PollStep 0 sample_env2]"

section \<open>Evaluating the sample inputs\<close>

lemmas effect_defs = q_put_def log_line_def showerror_def showinfo_def spawn_def set_thread_def

lemma strip_samples:
  "strip ''@nasa'' = ''@nasa''" "strip ''5'' = ''5''"
  "strip ''2026-01-26 09:00'' = ''2026-01-26 09:00''"
  "strip ''2026-01-26 18:00'' = ''2026-01-26 18:00''"
  "strip ''2026-01-26 12:30'' = ''2026-01-26 12:30''"
  by (simp_all add: strip_def isspace_def)

lemma parse_dt_samples:
  "parse_dt sample_lib ''2026-01-26 09:00'' = Some 63905014800000000"
  "parse_dt sample_lib ''2026-01-26 12:30'' = Some 63905027400000000"
  "parse_dt sample_lib ''2026-01-26 18:00'' = Some 63905047200000000"
  by (simp_all add: parse_dt_def strip_samples replace_T_def sample_lib_def)

lemma sample_running_eq:
  "sample_running =
     sample_initial\<lparr>api := Some sample_api, user_id := PStr ''42'', running := True,
        monitoring_start := Some 63905014800000000, poll_thread := Some 0,
        threads := [PollThread ''nasa'' 5 0 AtEntry], mode_var := DemoMode,
        start_btn_enabled := False, stop_btn_enabled := True,
        log_lines := [LogReady, LogConnected ''nasa'']\<rparr>"
  by (simp add: sample_running_def start_def sample_initial_def init_def strip_samples
      lstrip_at_def sample_lib_def sample_api_def dict_get_def effect_defs Let_def)

section \<open>start and stop\<close>

lemma start_running: "running s \<Longrightarrow> start L ctor info_r now s = s"
  by (simp add: start_def)

lemma stop_idle: "\<not> running s \<Longrightarrow> stop s = s"
  by (simp add: stop_def)

lemma running_stop: "\<not> running (stop s)"
  by (simp add: stop_def log_line_def)

text \<open>
  Claim C6. Calling \<open>start\<close> while the loop is running returns the state as it was:
  no thread is added to the thread table and no attribute changes, whatever the data
  source would have answered. Calling \<open>stop\<close> while the loop is not running returns
  the state as it was. Hence a second \<open>stop\<close> after a \<open>stop\<close>, and a second
  \<open>start\<close> after a \<open>start\<close> that got through, change nothing.
\<close>

theorem start_stop_idempotent:
  "(running s \<longrightarrow> start L ctor info_r now s = s) \<and>
   (\<not> running s \<longrightarrow> stop s = s) \<and>
   stop (stop s) = stop s \<and>
   (running (start L ctor info_r now s) \<longrightarrow>
      start L ctor' info_r' now' (start L ctor info_r now s) = start L ctor info_r now s)"
  using start_running stop_idle running_stop by blast

theorem start_stop_idempotent_witness:
  "running sample_running \<and>
   start sample_lib (Inr sample_api) (Inr (Some [(''id'', PStr ''7'')])) 200 sample_running
     = sample_running \<and>
   \<not> running sample_initial \<and> stop sample_initial = sample_initial \<and>
   threads (start sample_lib (Inr sample_api) (Inr (Some [(''id'', PStr ''7'')])) 200
              sample_running) = [PollThread ''nasa'' 5 0 AtEntry]"
proof -
  have r: "running sample_running"
    by (simp add: sample_running_eq)
  have i: "\<not> running sample_initial"
    by (simp add: sample_initial_def init_def)
  have t: "threads sample_running = [PollThread ''nasa'' 5 0 AtEntry]"
    by (simp add: sample_running_eq)
  from r i t
    start_stop_idempotent[of sample_running sample_lib "Inr sample_api"
      "Inr (Some [(''id'', PStr ''7'')])" 200]
    start_stop_idempotent[of sample_initial]
  show ?thesis by simp
qed

section \<open>What each operation leaves alone\<close>


lemma fold_log_frame:
  "api (fold (\<lambda>t. log_line (f t)) xs s) = api s \<and>
   user_id (fold (\<lambda>t. log_line (f t)) xs s) = user_id s \<and>
   running (fold (\<lambda>t. log_line (f t)) xs s) = running s \<and>
   monitoring_start (fold (\<lambda>t. log_line (f t)) xs s) = monitoring_start s \<and>
   tweet_ids (fold (\<lambda>t. log_line (f t)) xs s) = tweet_ids s \<and>
   poll_thread (fold (\<lambda>t. log_line (f t)) xs s) = poll_thread s \<and>
   range_thread (fold (\<lambda>t. log_line (f t)) xs s) = range_thread s \<and>
   threads (fold (\<lambda>t. log_line (f t)) xs s) = threads s \<and>
   q (fold (\<lambda>t. log_line (f t)) xs s) = q s"
  by (induction xs arbitrary: s) (simp_all add: log_line_def)

lemma dispatch_frame:
  "api (dispatch m s) = api s \<and>
   user_id (dispatch m s) = user_id s \<and>
   running (dispatch m s) = running s \<and>
   monitoring_start (dispatch m s) = monitoring_start s \<and>
   tweet_ids (dispatch m s) = tweet_ids s \<and>
   poll_thread (dispatch m s) = poll_thread s \<and>
   range_thread (dispatch m s) = range_thread s \<and>
   threads (dispatch m s) = threads s \<and>
   q (dispatch m s) = q s"
  by (cases m)
     (simp_all add: apply_update_def Let_def fold_log_frame log_line_def split: option.splits)

lemma drain_frame:
  "api (drain ms s) = api s \<and>
   user_id (drain ms s) = user_id s \<and>
   running (drain ms s) = running s \<and>
   monitoring_start (drain ms s) = monitoring_start s \<and>
   tweet_ids (drain ms s) = tweet_ids s \<and>
   poll_thread (drain ms s) = poll_thread s \<and>
   range_thread (drain ms s) = range_thread s \<and>
   threads (drain ms s) = threads s \<and>
   q (drain ms s) = q s"
  by (induction ms arbitrary: s) (simp_all add: dispatch_frame)

lemma drain_queue_frame:
  "api (drain_queue s) = api s \<and>
   user_id (drain_queue s) = user_id s \<and>
   running (drain_queue s) = running s \<and>
   monitoring_start (drain_queue s) = monitoring_start s \<and>
   tweet_ids (drain_queue s) = tweet_ids s \<and>
   poll_thread (drain_queue s) = poll_thread s \<and>
   range_thread (drain_queue s) = range_thread s \<and>
   threads (drain_queue s) = threads s \<and>
   q (drain_queue s) = []"
  by (simp add: drain_queue_def drain_frame)

lemma stop_frame:
  "api (stop s) = api s \<and>
   user_id (stop s) = user_id s \<and>
   monitoring_start (stop s) = monitoring_start s \<and>
   tweet_ids (stop s) = tweet_ids s \<and>
   poll_thread (stop s) = poll_thread s \<and>
   range_thread (stop s) = range_thread s \<and>
   threads (stop s) = threads s \<and>
   q (stop s) = q s"
  by (simp add: stop_def log_line_def)

lemma count_range_frame:
  "api (count_range L s) = api s \<and>
   user_id (count_range L s) = user_id s \<and>
   running (count_range L s) = running s \<and>
   monitoring_start (count_range L s) = monitoring_start s \<and>
   tweet_ids (count_range L s) = tweet_ids s \<and>
   poll_thread (count_range L s) = poll_thread s \<and>
   q (count_range L s) = q s"
  by (simp add: count_range_def Let_def showinfo_def showerror_def log_line_def spawn_def
      split: option.splits)

lemma poll_try_frame:
  "api (poll_try env u iv c s) = api s \<and>
   user_id (poll_try env u iv c s) = user_id s \<and>
   running (poll_try env u iv c s) = running s \<and>
   monitoring_start (poll_try env u iv c s) = monitoring_start s \<and>
   poll_thread (poll_try env u iv c s) = poll_thread s \<and>
   range_thread (poll_try env u iv c s) = range_thread s \<and>
   threads (poll_try env u iv c s) = threads s"
  by (simp add: poll_try_def Let_def q_put_def split: option.splits sum.splits)

lemma poll_loop_frame:
  "api (poll_loop env i u iv c pc s) = api s \<and>
   user_id (poll_loop env i u iv c pc s) = user_id s \<and>
   running (poll_loop env i u iv c pc s) = running s \<and>
   monitoring_start (poll_loop env i u iv c pc s) = monitoring_start s \<and>
   poll_thread (poll_loop env i u iv c pc s) = poll_thread s \<and>
   range_thread (poll_loop env i u iv c pc s) = range_thread s"
  by (cases "(env, i, u, iv, c, pc, s)" rule: poll_loop.cases)
     (simp_all add: set_thread_def poll_try_frame)

lemma worker_frame:
  "api (worker res i a b s) = api s \<and>
   user_id (worker res i a b s) = user_id s \<and>
   running (worker res i a b s) = running s \<and>
   monitoring_start (worker res i a b s) = monitoring_start s \<and>
   tweet_ids (worker res i a b s) = tweet_ids s \<and>
   poll_thread (worker res i a b s) = poll_thread s \<and>
   range_thread (worker res i a b s) = range_thread s \<and>
   threads (worker res i a b s) = (threads s)[i := RangeWorker a b False]"
  by (simp add: worker_def set_thread_def q_put_def split: option.splits sum.splits)

lemma exec_frame:
  assumes "\<And>ctor info_r now. act \<noteq> ClickStart ctor info_r now"
  shows "api (exec L act s) = api s \<and>
         user_id (exec L act s) = user_id s \<and>
         monitoring_start (exec L act s) = monitoring_start s \<and>
         poll_thread (exec L act s) = poll_thread s \<and>
         (running (exec L act s) \<longrightarrow> running s)"
proof (cases act)
  case (ClickStart ctor info_r now)
  with assms show ?thesis by blast
qed (simp_all add: stop_frame stop_def log_line_def count_range_frame drain_queue_frame
        poll_loop_frame worker_frame split: thread.splits)

lemma start_frame:
  "range_thread (start L ctor info_r now s) = range_thread s \<and>
   q (start L ctor info_r now s) = q s \<and>
   (api s \<noteq> None \<longrightarrow> api (start L ctor info_r now s) \<noteq> None)"
  by (simp add: start_def Let_def effect_defs split: option.splits sum.splits)

lemma start_threads:
  "threads (start L ctor info_r now s) =
     (if running (start L ctor info_r now s) \<and> \<not> running s
      then threads s @ [PollThread (lstrip_at (strip (username_var s)))
             (max 5 (the (int_of_str L (if strip (interval_var s) = [] then ''60''
                                        else strip (interval_var s))))) 0 AtEntry]
      else threads s)"
  by (simp add: start_def Let_def effect_defs split: option.splits sum.splits)

lemma start_failed:
  assumes "\<not> running (start L ctor info_r now s)"
  shows "running (start L ctor info_r now s) = running s \<and>
         threads (start L ctor info_r now s) = threads s \<and>
         poll_thread (start L ctor info_r now s) = poll_thread s \<and>
         monitoring_start (start L ctor info_r now s) = monitoring_start s \<and>
         tweet_ids (start L ctor info_r now s) = tweet_ids s \<and>
         range_count (start L ctor info_r now s) = range_count s \<and>
         (user_id (start L ctor info_r now s) = user_id s \<or>
          \<not> truthy (user_id (start L ctor info_r now s)))"
  using assms
  by (simp add: start_def Let_def effect_defs split: option.splits sum.splits if_splits)

lemma start_started:
  assumes "running (start L ctor info_r now s)" and "\<not> running s"
  shows "api (start L ctor info_r now s) \<noteq> None \<and>
         truthy (user_id (start L ctor info_r now s)) \<and>
         monitoring_start (start L ctor info_r now s) = Some now \<and>
         tweet_ids (start L ctor info_r now s) = {}"
  using assms
  by (simp add: start_def Let_def effect_defs split: option.splits sum.splits if_splits)

section \<open>count\_range\<close>

lemma count_range_refused:
  "api s = None \<or> \<not> truthy (user_id s) \<Longrightarrow>
   count_range L s =
     s\<lparr>dialogs := dialogs s @
          [ShowInfo ''Not running'' ''Start monitoring first (so we know the user id).'']\<rparr>"
  by (auto simp add: count_range_def showinfo_def)

lemma never_started_user_id:
  "never_started L acts s \<Longrightarrow> \<not> truthy (user_id s) \<Longrightarrow>
   \<not> truthy (user_id (run L acts s))"
proof (induction acts arbitrary: s)
  case Nil
  then show ?case by simp
next
  case (Cons a acts)
  have "\<not> truthy (user_id (exec L a s))"
  proof (cases "\<exists>ctor info_r now. a = ClickStart ctor info_r now")
    case True
    then obtain ctor info_r now where a: "a = ClickStart ctor info_r now" by blast
    with Cons.prems have "\<not> running (start L ctor info_r now s)" by simp
    from start_failed[OF this] Cons.prems(2) a show ?thesis by auto
  next
    case False
    then show ?thesis using exec_frame[of a L s] Cons.prems(2) by simp
  qed
  with Cons show ?case by simp
qed

text \<open>
  Claim C10. While no data source has been constructed or no account id is stored,
  \<open>count_range\<close> returns the state as it was except for the information box it shows:
  the thread table, the queue and every attribute are unchanged. In every run from
  the initial state in which no \<open>start\<close> got through, no account id is stored, so
  the request is refused in this way.
\<close>

theorem count_range_before_start:
  "(api s = None \<or> \<not> truthy (user_id s) \<longrightarrow>
      count_range L s =
        s\<lparr>dialogs := dialogs s @
             [ShowInfo ''Not running'' ''Start monitoring first (so we know the user id).'']\<rparr>) \<and>
   (never_started L acts (init u iv rs re) \<longrightarrow>
      \<not> truthy (user_id (run L acts (init u iv rs re))) \<and>
      count_range L (run L acts (init u iv rs re)) =
        (run L acts (init u iv rs re))
          \<lparr>dialogs := dialogs (run L acts (init u iv rs re)) @
             [ShowInfo ''Not running'' ''Start monitoring first (so we know the user id).'']\<rparr>)"
proof -
  have "\<not> truthy (user_id (init u iv rs re))" by (simp add: init_def)
  then show ?thesis
    using never_started_user_id[of L acts "init u iv rs re"] count_range_refused by blast
qed

lemma sample_failed_start:
  "start sample_lib (Inr sample_api) (Inl ''rate limited'') 100 sample_initial =
     sample_initial\<lparr>api := Some sample_api,
        dialogs := [ShowError ''Failed to start'' ''rate limited'']\<rparr>"
  by (simp add: start_def sample_initial_def init_def strip_samples
      lstrip_at_def sample_lib_def effect_defs Let_def)

theorem count_range_before_start_witness:
  "api sample_initial = None \<and>
   count_range sample_lib sample_initial =
     sample_initial\<lparr>dialogs :=
        [ShowInfo ''Not running'' ''Start monitoring first (so we know the user id).'']\<rparr> \<and>
   never_started sample_lib [ClickStart (Inr sample_api) (Inl ''rate limited'') 100]
     sample_initial \<and>
   threads (count_range sample_lib
      (run sample_lib [ClickStart (Inr sample_api) (Inl ''rate limited'') 100]
         sample_initial)) = [] \<and>
   q (count_range sample_lib
      (run sample_lib [ClickStart (Inr sample_api) (Inl ''rate limited'') 100]
         sample_initial)) = []"
proof -
  let ?acts = "[ClickStart (Inr sample_api) (Inl ''rate limited'') 100]"
  have i: "init ''@nasa'' ''5'' ''2026-01-26 09:00'' ''2026-01-26 18:00'' = sample_initial"
    by (simp add: sample_initial_def)
  have a: "api sample_initial = None" "dialogs sample_initial = []"
    by (simp_all add: sample_initial_def init_def)
  have r: "run sample_lib ?acts sample_initial =
        sample_initial\<lparr>api := Some sample_api,
        dialogs := [ShowError ''Failed to start'' ''rate limited'']\<rparr>"
    using sample_failed_start by simp
  have n: "never_started sample_lib ?acts sample_initial"
    using sample_failed_start by (simp add: sample_initial_def init_def)
  have c1: "count_range sample_lib sample_initial =
     sample_initial\<lparr>dialogs :=
        [ShowInfo ''Not running'' ''Start monitoring first (so we know the user id).'']\<rparr>"
    using count_range_before_start[where s = sample_initial and L = sample_lib] a by simp
  have c2: "count_range sample_lib (run sample_lib ?acts sample_initial) =
     (run sample_lib ?acts sample_initial)
       \<lparr>dialogs := dialogs (run sample_lib ?acts sample_initial) @
          [ShowInfo ''Not running'' ''Start monitoring first (so we know the user id).'']\<rparr>"
    using count_range_before_start[where L = sample_lib and acts = ?acts
        and u = "''@nasa''" and iv = "''5''" and rs = "''2026-01-26 09:00''"
        and re = "''2026-01-26 18:00''", unfolded i] n
    by blast
  have tr: "threads (run sample_lib ?acts sample_initial) = []"
    "q (run sample_lib ?acts sample_initial) = []"
    unfolding r by (simp_all add: sample_initial_def init_def)
  have t: "threads (count_range sample_lib (run sample_lib ?acts sample_initial)) = []"
    by (subst c2) (simp add: tr del: run.simps)
  have qq: "q (count_range sample_lib (run sample_lib ?acts sample_initial)) = []"
    by (subst c2) (simp add: tr del: run.simps)
  from a(1) c1 n t qq show ?thesis by blast
qed

text \<open>
  Claim C3. When both entries parse and the start is not before the end,
  \<open>count_range\<close> returns at once: the thread table and \<open>_range_thread\<close> are as
  before, so no range worker exists that could ever put a range result, the queue
  is unchanged, and the only effect is one message box. The timestamps are parsed
  only after the account check of lines 240--242 has passed; in that case the box
  is the error box "Invalid range".
\<close>

theorem invalid_range_rejected:
  assumes "parse_dt L (range_start_var s) = Some a"
    and "parse_dt L (range_end_var s) = Some b"
    and "a \<ge> b"
  shows "threads (count_range L s) = threads s \<and>
         range_thread (count_range L s) = range_thread s \<and>
         q (count_range L s) = q s \<and>
         (\<exists>d. count_range L s = s\<lparr>dialogs := dialogs s @ [d]\<rparr>) \<and>
         (api s \<noteq> None \<and> truthy (user_id s) \<longrightarrow>
            count_range L s =
              s\<lparr>dialogs := dialogs s @
                   [ShowError ''Invalid range'' ''Range start must be before range end.'']\<rparr>)"
  using assms by (auto simp add: count_range_def showerror_def showinfo_def)

theorem invalid_range_rejected_witness:
  "parse_dt sample_lib (range_start_var
      (sample_running\<lparr>range_start_var := ''2026-01-26 18:00'',
                       range_end_var := ''2026-01-26 09:00''\<rparr>)) = Some 63905047200000000 \<and>
   parse_dt sample_lib (range_end_var
      (sample_running\<lparr>range_start_var := ''2026-01-26 18:00'',
                       range_end_var := ''2026-01-26 09:00''\<rparr>)) = Some 63905014800000000 \<and>
   (63905047200000000 :: int) \<ge> 63905014800000000 \<and>
   threads (count_range sample_lib
      (sample_running\<lparr>range_start_var := ''2026-01-26 18:00'',
                       range_end_var := ''2026-01-26 09:00''\<rparr>))
     = [PollThread ''nasa'' 5 0 AtEntry] \<and>
   dialogs (count_range sample_lib
      (sample_running\<lparr>range_start_var := ''2026-01-26 18:00'',
                       range_end_var := ''2026-01-26 09:00''\<rparr>))
     = [ShowError ''Invalid range'' ''Range start must be before range end.'']"
proof -
  let ?s = "sample_running\<lparr>range_start_var := ''2026-01-26 18:00'',
                       range_end_var := ''2026-01-26 09:00''\<rparr>"
  have p1: "parse_dt sample_lib (range_start_var ?s) = Some 63905047200000000"
    by (simp add: parse_dt_samples)
  have p2: "parse_dt sample_lib (range_end_var ?s) = Some 63905014800000000"
    by (simp add: parse_dt_samples)
  have le: "(63905047200000000 :: int) \<ge> 63905014800000000" by simp
  have e: "api ?s \<noteq> None" "truthy (user_id ?s)" "threads ?s = [PollThread ''nasa'' 5 0 AtEntry]"
    "dialogs ?s = []"
    by (simp_all add: sample_running_eq sample_initial_def init_def)
  from invalid_range_rejected[OF p1 p2 le] p1 p2 e show ?thesis by simp
qed

section \<open>At most one range worker\<close>

lemma live_worker_alive: "live_worker t \<Longrightarrow> thread_alive t"
  by (cases t) simp_all

lemma poll_loop_threads:
  assumes "i < length (threads s)" and "threads s ! i = PollThread u iv c pc"
  shows "\<exists>c' pc'. threads (poll_loop env i u iv c pc s) = (threads s)[i := PollThread u iv c' pc']"
proof (cases "(env, i, u, iv, c, pc, s)" rule: poll_loop.cases)
  case (6 env' i' u' iv' c' s')
  then have "threads (poll_loop env i u iv c pc s) = threads s" by simp
  also have "\<dots> = (threads s)[i := PollThread u iv c pc]"
    using assms by (metis list_update_id)
  finally show ?thesis by blast
qed (simp_all add: set_thread_def poll_try_frame, blast+)

lemma worker_inv_update:
  assumes "worker_inv s" and "\<not> live_worker t"
    and "threads s' = (threads s)[i := t]" and "range_thread s' = range_thread s"
  shows "worker_inv s'"
  unfolding worker_inv_def
proof (intro allI impI)
  fix j
  assume j: "j < length (threads s')" and l: "live_worker (threads s' ! j)"
  from j assms(3) have jl: "j < length (threads s)" by simp
  have "j \<noteq> i"
    using l assms(2,3) jl by auto
  with l assms(3) have "live_worker (threads s ! j)" by simp
  with assms(1,4) jl show "range_thread s' = Some j" by (simp add: worker_inv_def)
qed

lemma worker_inv_same:
  assumes "worker_inv s" and "threads s' = threads s" and "range_thread s' = range_thread s"
  shows "worker_inv s'"
  using assms by (simp add: worker_inv_def)

lemma worker_inv_start: "worker_inv s \<Longrightarrow> worker_inv (start L ctor info_r now s)"
  unfolding worker_inv_def
  by (auto simp add: start_threads[of L ctor info_r now s] start_frame nth_append)

lemma worker_inv_count_range:
  assumes "worker_inv s"
  shows "worker_inv (count_range L s)"
proof (cases "threads (count_range L s) = threads s \<and>
              range_thread (count_range L s) = range_thread s")
  case True
  with assms show ?thesis by (simp add: worker_inv_same)
next
  case False
  then obtain a b where
    na: "\<not> handle_alive (threads s) (range_thread s)" and
    th: "threads (count_range L s) = threads s @ [RangeWorker a b True]" and
    rt: "range_thread (count_range L s) = Some (length (threads s))"
    by (auto simp add: count_range_def Let_def effect_defs split: option.splits if_splits)
  have none: "\<not> live_worker (threads s ! j)" if "j < length (threads s)" for j
  proof
    assume l: "live_worker (threads s ! j)"
    with assms that have "range_thread s = Some j" by (simp add: worker_inv_def)
    with na that l show False by (simp add: handle_alive_def live_worker_alive)
  qed
  show ?thesis
    unfolding worker_inv_def th rt using none
    by (auto simp add: nth_append less_Suc_eq)
qed

lemma worker_inv_exec: "worker_inv s \<Longrightarrow> worker_inv (exec L a s)"
proof (cases a)
  case (ClickStart ctor info_r now)
  assume "worker_inv s"
  with ClickStart show ?thesis by (simp add: worker_inv_start)
next
  case ClickStop
  assume "worker_inv s"
  with ClickStop show ?thesis by (simp add: worker_inv_same[of s] stop_frame)
next
  case ClickCount
  assume "worker_inv s"
  with ClickCount show ?thesis by (simp add: worker_inv_count_range)
next
  case Drain
  assume "worker_inv s"
  with Drain show ?thesis by (simp add: worker_inv_same[of s] drain_queue_frame)
next
  case (PollStep i env)
  assume inv: "worker_inv s"
  show ?thesis
  proof (cases "i < length (threads s)")
    case False
    with PollStep inv show ?thesis by simp
  next
    case True
    show ?thesis
    proof (cases "threads s ! i")
      case (PollThread u iv c pc)
      from poll_loop_threads[OF True this, of env] obtain t where
        "\<not> live_worker t" "threads (poll_loop env i u iv c pc s) = (threads s)[i := t]"
        by (metis live_worker.simps(2))
      with inv have "worker_inv (poll_loop env i u iv c pc s)"
        by (rule worker_inv_update) (simp add: poll_loop_frame)
      with PollStep True PollThread show ?thesis by simp
    next
      case (RangeWorker a b alive)
      with PollStep True inv show ?thesis by simp
    qed
  qed
next
  case (WorkerStep i res)
  assume inv: "worker_inv s"
  show ?thesis
  proof (cases "i < length (threads s)")
    case False
    with WorkerStep inv show ?thesis by simp
  next
    case True
    show ?thesis
    proof (cases "threads s ! i")
      case (PollThread u iv c pc)
      with WorkerStep True inv show ?thesis by simp
    next
      case (RangeWorker a b alive)
      have "worker_inv (worker res i a b s)"
        using inv by (rule worker_inv_update[where t = "RangeWorker a b False" and i = i])
                     (simp_all add: worker_frame)
      with WorkerStep True RangeWorker inv show ?thesis by simp
    qed
  qed
qed (simp_all add: worker_inv_def)

lemma worker_inv_run: "worker_inv s \<Longrightarrow> worker_inv (run L acts s)"
  by (induction acts arbitrary: s) (simp_all add: worker_inv_exec)

lemma worker_inv_init: "worker_inv (init u iv rs re)"
  by (simp add: worker_inv_def init_def)

lemma worker_inv_count: "worker_inv s \<Longrightarrow> length (filter live_worker (threads s)) \<le> 1"
proof -
  assume inv: "worker_inv s"
  have "{i. i < length (threads s) \<and> live_worker (threads s ! i)} \<subseteq>
        (case range_thread s of None \<Rightarrow> {} | Some j \<Rightarrow> {j})"
    using inv by (auto simp add: worker_inv_def split: option.splits)
  then have "card {i. i < length (threads s) \<and> live_worker (threads s ! i)} \<le>
        card (case range_thread s of None \<Rightarrow> {} | Some j \<Rightarrow> {j})"
    by (intro card_mono) (auto split: option.splits)
  also have "\<dots> \<le> 1" by (simp split: option.splits)
  finally show ?thesis by (simp add: length_filter_conv_card)
qed

lemma count_range_busy:
  "handle_alive (threads s) (range_thread s) \<Longrightarrow>
   threads (count_range L s) = threads s \<and>
   range_thread (count_range L s) = range_thread s \<and>
   q (count_range L s) = q s"
  by (simp add: count_range_def Let_def effect_defs split: option.splits)

text \<open>
  Claim C9. In every state the application can reach from its initial state, at most
  one range worker is alive. A \<open>count_range\<close> made while the thread of \<open>_range_thread\<close>
  is alive adds no thread, keeps \<open>_range_thread\<close> and puts nothing on the queue (the
  range label and the activity log have already been written at that point).
\<close>

theorem at_most_one_range_worker:
  "length (filter live_worker (threads (run L acts (init u iv rs re)))) \<le> 1 \<and>
   (handle_alive (threads s) (range_thread s) \<longrightarrow>
      threads (count_range L s) = threads s \<and>
      range_thread (count_range L s) = range_thread s \<and>
      q (count_range L s) = q s)"
  using worker_inv_count[OF worker_inv_run[OF worker_inv_init]] count_range_busy by blast

lemma sample_counting_eq:
  "sample_counting =
     sample_running\<lparr>range_thread := Some 1,
        threads := [PollThread ''nasa'' 5 0 AtEntry,
                    RangeWorker 63905014800000000 63905047200000000 True],
        range_var := RangePending,
        log_lines := [LogReady, LogConnected ''nasa'',
                      LogCounting 63905014800000000 63905047200000000]\<rparr>"
  by (simp add: sample_counting_def count_range_def sample_running_eq sample_initial_def
      init_def parse_dt_samples handle_alive_def effect_defs Let_def)

theorem at_most_one_range_worker_witness:
  "handle_alive (threads sample_counting) (range_thread sample_counting) \<and>
   threads (count_range sample_lib sample_counting) =
     [PollThread ''nasa'' 5 0 AtEntry,
      RangeWorker 63905014800000000 63905047200000000 True] \<and>
   range_thread (count_range sample_lib sample_counting) = Some 1 \<and>
   q (count_range sample_lib sample_counting) = []"
proof -
  have h: "handle_alive (threads sample_counting) (range_thread sample_counting)"
    by (simp add: sample_counting_eq handle_alive_def)
  have e: "threads sample_counting =
     [PollThread ''nasa'' 5 0 AtEntry,
      RangeWorker 63905014800000000 63905047200000000 True]"
    "range_thread sample_counting = Some 1" "q sample_counting = []"
    by (simp_all add: sample_counting_eq sample_running_eq sample_initial_def init_def)
  from h e at_most_one_range_worker[where s = sample_counting and L = sample_lib]
  show ?thesis by simp
qed

section \<open>The dedup set\<close>

lemma collect_new_fst: "fst (collect_new ts ids new) = ids \<union> set (map tweet_id ts)"
  by (induction ts arbitrary: ids new) auto

lemma collect_new_acc: "snd (collect_new ts ids new) = new @ snd (collect_new ts ids [])"
proof (induction ts arbitrary: ids new)
  case Nil
  then show ?case by simp
next
  case (Cons t ts)
  show ?case
  proof (cases "tweet_id t \<in> ids")
    case True
    then show ?thesis using Cons.IH[of ids new] by simp
  next
    case False
    then show ?thesis
      using Cons.IH[of "insert (tweet_id t) ids" "new @ [t]"]
            Cons.IH[of "insert (tweet_id t) ids" "[t]"] by simp
  qed
qed

lemma collect_new_Cons:
  "snd (collect_new (t # ts) ids []) =
     (if tweet_id t \<in> ids then snd (collect_new ts ids [])
      else t # snd (collect_new ts (insert (tweet_id t) ids) []))"
  using collect_new_acc[of ts "insert (tweet_id t) ids" "[t]"] by simp

lemma collect_new_subseq: "subseq (snd (collect_new ts ids [])) ts"
  by (induction ts arbitrary: ids)
     (auto simp add: collect_new_Cons simp del: collect_new.simps(2))

lemma collect_new_ids:
  "set (map tweet_id (snd (collect_new ts ids []))) = set (map tweet_id ts) - ids"
  by (induction ts arbitrary: ids) (auto simp add: collect_new_Cons simp del: collect_new.simps(2))

lemma collect_new_fresh:
  "t \<in> set (snd (collect_new ts ids [])) \<Longrightarrow> tweet_id t \<notin> ids"
  using collect_new_ids[of ts ids] by auto

lemma collect_new_distinct: "distinct (map tweet_id (snd (collect_new ts ids [])))"
proof (induction ts arbitrary: ids)
  case Nil
  then show ?case by simp
next
  case (Cons t ts)
  show ?case
  proof (cases "tweet_id t \<in> ids")
    case True
    then show ?thesis using Cons.IH[of ids] by (simp add: collect_new_Cons del: collect_new.simps(2))
  next
    case False
    have "tweet_id t \<notin> tweet_id ` set (snd (collect_new ts (insert (tweet_id t) ids) []))"
      using collect_new_fresh[of _ ts "insert (tweet_id t) ids"] by force
    then show ?thesis
      using False Cons.IH[of "insert (tweet_id t) ids"]
      by (simp add: collect_new_Cons del: collect_new.simps(2))
  qed
qed

text \<open>What one pass through the \<open>try\<close> block puts on the queue and does to the set.\<close>

lemma poll_try_cases:
  "(\<exists>e. q (poll_try env u iv c s) = q s @ [ErrorMsg e] \<and>
        tweet_ids (poll_try env u iv c s) = tweet_ids s) \<or>
   (\<exists>tweets p. tweets_res env = Inr tweets \<and>
        q (poll_try env u iv c s) = q s @ [UpdateMsg p] \<and>
        u_new p = snd (collect_new tweets (tweet_ids s) []) \<and>
        tweet_ids (poll_try env u iv c s) = fst (collect_new tweets (tweet_ids s) []))"
  by (simp add: poll_try_def Let_def q_put_def split: option.splits sum.splits)

lemma fresh_ids_none: "tweet_ids s' = tweet_ids s \<Longrightarrow> fresh_ids [] s s'"
  by (simp add: fresh_ids_def)

lemma poll_try_fresh:
  "fresh_ids (concat (map new_ids (drop (length (q s)) (q (poll_try env u iv c s)))))
     s (poll_try env u iv c s)"
proof -
  consider (err) e where "q (poll_try env u iv c s) = q s @ [ErrorMsg e]"
      "tweet_ids (poll_try env u iv c s) = tweet_ids s"
    | (upd) tweets p where "q (poll_try env u iv c s) = q s @ [UpdateMsg p]"
      "u_new p = snd (collect_new tweets (tweet_ids s) [])"
      "tweet_ids (poll_try env u iv c s) = fst (collect_new tweets (tweet_ids s) [])"
    using poll_try_cases[of env u iv c s] by blast
  then show ?thesis
  proof cases
    case err
    then show ?thesis by (simp add: fresh_ids_def)
  next
    case upd
    have "set (map tweet_id (snd (collect_new tweets (tweet_ids s) []))) \<inter> tweet_ids s = {}"
      unfolding collect_new_ids by blast
    moreover have "fst (collect_new tweets (tweet_ids s) []) =
        tweet_ids s \<union> set (map tweet_id (snd (collect_new tweets (tweet_ids s) [])))"
      unfolding collect_new_ids collect_new_fst by blast
    ultimately show ?thesis
      using upd collect_new_distinct[of tweets "tweet_ids s"]
      by (simp add: fresh_ids_def del: set_map)
  qed
qed

lemma poll_loop_fresh:
  "fresh_ids (concat (map new_ids (drop (length (q s)) (q (poll_loop env i u iv c pc s)))))
     s (poll_loop env i u iv c pc s)"
proof (cases "(env, i, u, iv, c, pc, s)" rule: poll_loop.cases)
  case (3 env' i' u' iv' c' s')
  then have "q (poll_loop env i u iv c pc s) = q (poll_try env u iv c s)"
    "tweet_ids (poll_loop env i u iv c pc s) = tweet_ids (poll_try env u iv c s)"
    by (simp_all add: set_thread_def)
  then show ?thesis
    using poll_try_fresh[of s env u iv c] by (simp add: fresh_ids_def)
qed (simp_all add: set_thread_def fresh_ids_def)

lemma worker_fresh:
  "fresh_ids (concat (map new_ids (drop (length (q s)) (q (worker res i a b s)))))
     s (worker res i a b s)"
  by (simp add: worker_def set_thread_def q_put_def fresh_ids_def split: option.splits sum.splits)

lemma exec_fresh:
  assumes "running (exec L a s) \<longrightarrow> running s"
  shows "fresh_ids (concat (map new_ids (emitted L a s))) s (exec L a s)"
proof (cases a)
  case (ClickStart ctor info_r now)
  show ?thesis
  proof (cases "running s")
    case True
    with ClickStart show ?thesis by (simp add: emitted_def start_running fresh_ids_def)
  next
    case False
    with assms ClickStart have "\<not> running (start L ctor info_r now s)" by simp
    from start_failed[OF this] ClickStart show ?thesis
      by (simp add: emitted_def start_frame fresh_ids_def)
  qed
next
  case ClickStop
  then show ?thesis by (simp add: emitted_def stop_frame fresh_ids_def)
next
  case ClickCount
  then show ?thesis by (simp add: emitted_def count_range_frame fresh_ids_def)
next
  case Drain
  then show ?thesis by (simp add: emitted_def drain_queue_frame fresh_ids_def)
next
  case (PollStep i env)
  then show ?thesis
    using poll_loop_fresh[of s env i]
    by (simp add: emitted_def fresh_ids_def split: thread.splits)
next
  case (WorkerStep i res)
  then show ?thesis
    using worker_fresh[of s res i]
    by (simp add: emitted_def fresh_ids_def split: thread.splits)
qed (simp_all add: emitted_def fresh_ids_def)

lemma run_fresh:
  "within_session L acts s \<Longrightarrow>
   fresh_ids (concat (map new_ids (run_emitted L acts s))) s (run L acts s)"
proof (induction acts arbitrary: s)
  case Nil
  then show ?case by (simp add: fresh_ids_def)
next
  case (Cons a acts)
  from Cons.prems have h: "running (exec L a s) \<longrightarrow> running s"
    and w: "within_session L acts (exec L a s)" by simp_all
  from exec_fresh[OF h] Cons.IH[OF w] show ?case
    by (auto simp add: fresh_ids_def)
qed

section \<open>Runs\<close>

lemma run_append: "run L (xs @ ys) s = run L ys (run L xs s)"
  by (induction xs arbitrary: s) simp_all

lemma run_emitted_append:
  "run_emitted L (xs @ ys) s = run_emitted L xs s @ run_emitted L ys (run L xs s)"
  by (induction xs arbitrary: s) simp_all

lemma within_session_append:
  "within_session L (xs @ ys) s =
     (within_session L xs s \<and> within_session L ys (run L xs s))"
  by (induction xs arbitrary: s) auto

text \<open>The interruptible sleep, while \<open>running\<close> stays set: \<open>k\<close> rounds pass.\<close>

lemma set_thread_same:
  "i < length (threads s) \<Longrightarrow> threads s ! i = t \<Longrightarrow> set_thread i t s = s"
proof -
  assume "i < length (threads s)" "threads s ! i = t"
  then have "(threads s)[i := t] = threads s" by (metis list_update_id)
  then show ?thesis by (simp add: set_thread_def)
qed

lemma set_thread_twice: "set_thread i t (set_thread i t' s) = set_thread i t s"
  by (simp add: set_thread_def)

lemma set_thread_fields:
  "running (set_thread i t s) = running s"
  "q (set_thread i t s) = q s"
  "length (threads (set_thread i t s)) = length (threads s)"
  "i < length (threads s) \<Longrightarrow> threads (set_thread i t s) ! i = t"
  by (simp_all add: set_thread_def)

lemma sleep_round:
  assumes "running s" and "i < length (threads s)"
    and "threads s ! i = PollThread u iv c (Sleeping (Suc k))"
  shows "exec L (PollStep i env) s = set_thread i (PollThread u iv c (Sleeping k)) s"
  using assms by simp

lemma sleep_rounds:
  assumes "running s" and "i < length (threads s)"
    and "threads s ! i = PollThread u iv c (Sleeping k)"
  shows "run L (replicate k (PollStep i env)) s = set_thread i (PollThread u iv c (Sleeping 0)) s \<and>
         run_emitted L (replicate k (PollStep i env)) s = [] \<and>
         within_session L (replicate k (PollStep i env)) s"
  using assms
proof (induction k arbitrary: s)
  case 0
  then show ?case by (simp add: set_thread_same)
next
  case (Suc k)
  let ?s' = "set_thread i (PollThread u iv c (Sleeping k)) s"
  have e: "exec L (PollStep i env) s = ?s'"
    using Suc.prems by (rule sleep_round)
  have "running ?s'" "i < length (threads ?s')" "threads ?s' ! i = PollThread u iv c (Sleeping k)"
    using Suc.prems by (simp_all add: set_thread_fields)
  from Suc.IH[OF this] have
    "run L (replicate k (PollStep i env)) ?s' = set_thread i (PollThread u iv c (Sleeping 0)) s"
    "run_emitted L (replicate k (PollStep i env)) ?s' = []"
    "within_session L (replicate k (PollStep i env)) ?s'"
    by (simp_all add: set_thread_twice)
  moreover have "emitted L (PollStep i env) s = []"
    unfolding emitted_def e by (simp add: set_thread_fields)
  moreover have "running (exec L (PollStep i env) s) \<longrightarrow> running s"
    using Suc.prems by simp
  ultimately show ?case
    using e by (simp del: exec.simps)
qed

text \<open>After the sleep the thread is back in the \<open>try\<close> block, one cycle later.\<close>

lemma next_tick:
  assumes "running s" and "i < length (threads s)"
    and "threads s ! i = PollThread u iv c (Sleeping k)"
  shows "run L (replicate k (PollStep i env) @ [PollStep i env, PollStep i env]) s =
           set_thread i (PollThread u iv (c + 1) InTry) s \<and>
         run_emitted L (replicate k (PollStep i env) @ [PollStep i env, PollStep i env]) s = [] \<and>
         within_session L (replicate k (PollStep i env) @ [PollStep i env, PollStep i env]) s"
proof -
  let ?s0 = "set_thread i (PollThread u iv c (Sleeping 0)) s"
  let ?s1 = "set_thread i (PollThread u iv c AtWhile) s"
  let ?s2 = "set_thread i (PollThread u iv (c + 1) InTry) s"
  note sl = sleep_rounds[OF assms, of L env]
  have f0: "running ?s0" "i < length (threads ?s0)"
    "threads ?s0 ! i = PollThread u iv c (Sleeping 0)" "q ?s0 = q s"
    using assms by (simp_all add: set_thread_fields)
  have e1: "exec L (PollStep i env) ?s0 = ?s1"
    using f0(2,3) by (simp add: set_thread_twice)
  have f1: "running ?s1" "i < length (threads ?s1)"
    "threads ?s1 ! i = PollThread u iv c AtWhile" "q ?s1 = q s"
    using assms by (simp_all add: set_thread_fields)
  have e2: "exec L (PollStep i env) ?s1 = ?s2"
    using f1(1,2,3) by (simp add: set_thread_twice)
  have em1: "emitted L (PollStep i env) ?s0 = []"
    unfolding emitted_def e1 by (simp add: set_thread_fields)
  have em2: "emitted L (PollStep i env) ?s1 = []"
    unfolding emitted_def e2 by (simp add: set_thread_fields)
  have r2: "running ?s2" using assms by (simp add: set_thread_fields)
  show ?thesis
    unfolding run_append run_emitted_append within_session_append
    using sl e1 e2 em1 em2 f0(1) f1(1) r2
    by (simp del: exec.simps)
qed

lemma exec_q_append: "a \<noteq> Drain \<Longrightarrow> q (exec L a s) = q s @ emitted L a s"
proof (cases a)
  case (PollStep i env)
  have "\<exists>ms. q (poll_loop env i u iv c pc s) = q s @ ms" for u iv c pc
    using poll_try_cases[of env u iv c s]
    by (cases "(env, i, u, iv, c, pc, s)" rule: poll_loop.cases)
       (auto simp add: set_thread_def)
  then have "q (poll_loop env i u iv c pc s) =
      q s @ drop (length (q s)) (q (poll_loop env i u iv c pc s))" for u iv c pc
    by (metis append_eq_conv_conj)
  with PollStep show ?thesis
    by (simp add: emitted_def split: thread.splits)
next
  case (WorkerStep i res)
  then show ?thesis
    by (simp add: emitted_def worker_def set_thread_def q_put_def
        split: thread.splits option.splits sum.splits)
qed (simp_all add: emitted_def start_frame stop_frame count_range_frame)


lemma filter_update_le:
  assumes "P t \<longrightarrow> i < length xs \<and> P (xs ! i)"
  shows "length (filter P (xs[i := t])) \<le> length (filter P xs)"
  using assms
proof (induction xs arbitrary: i)
  case Nil
  then show ?case by simp
next
  case (Cons x xs)
  show ?case
  proof (cases i)
    case 0
    with Cons.prems show ?thesis by auto
  next
    case (Suc j)
    with Cons.prems have "P t \<longrightarrow> j < length xs \<and> P (xs ! j)" by simp
    from Cons.IH[OF this] Suc show ?thesis by simp
  qed
qed

lemma poll_loop_pollers:
  assumes "i < length (threads s)" and "threads s ! i = PollThread u iv c pc"
  shows "length (filter live_poller (threads (poll_loop env i u iv c pc s))) \<le>
         length (filter live_poller (threads s))"
proof -
  from poll_loop_threads[OF assms, of env] obtain c' pc' where
    t: "threads (poll_loop env i u iv c pc s) = (threads s)[i := PollThread u iv c' pc']"
    by blast
  have "pc = Returned \<longrightarrow> pc' = Returned"
  proof
    assume r: "pc = Returned"
    then have "threads (poll_loop env i u iv c pc s) = threads s" by simp
    with t have "(threads s)[i := PollThread u iv c' pc'] ! i = threads s ! i" by simp
    with assms r show "pc' = Returned" by simp
  qed
  then have "live_poller (PollThread u iv c' pc') \<longrightarrow>
      i < length (threads s) \<and> live_poller (threads s ! i)"
    using assms by auto
  from filter_update_le[of live_poller, OF this] t show ?thesis by simp
qed

lemma exec_pollers:
  assumes "running (exec L a s) \<longrightarrow> running s"
  shows "length (filter live_poller (threads (exec L a s))) \<le>
         length (filter live_poller (threads s))"
proof (cases a)
  case (ClickStart ctor info_r now)
  with assms show ?thesis
    by (simp add: start_threads[of L ctor info_r now s])
next
  case ClickStop
  then show ?thesis by (simp add: stop_frame)
next
  case ClickCount
  have "threads (count_range L s) = threads s \<or>
        (\<exists>a b. threads (count_range L s) = threads s @ [RangeWorker a b True])"
    by (auto simp add: count_range_def Let_def effect_defs split: option.splits)
  with ClickCount show ?thesis by auto
next
  case Drain
  then show ?thesis by (simp add: drain_queue_frame)
next
  case (PollStep i env)
  then show ?thesis
    using poll_loop_pollers[of i s _ _ _ _ env]
    by (simp split: thread.splits)
next
  case (WorkerStep i res)
  have "length (filter live_poller ((threads s)[i := RangeWorker a b False])) \<le>
        length (filter live_poller (threads s))" for a b
    by (rule filter_update_le) simp
  with WorkerStep show ?thesis
    by (simp add: worker_frame split: thread.splits)
qed simp_all

lemma run_pollers:
  "within_session L acts s \<Longrightarrow>
   length (filter live_poller (threads (run L acts s))) \<le> length (filter live_poller (threads s))"
proof (induction acts arbitrary: s)
  case Nil
  then show ?case by simp
next
  case (Cons a acts)
  from Cons.prems have h: "running (exec L a s) \<longrightarrow> running s"
    and w: "within_session L acts (exec L a s)" by simp_all
  from exec_pollers[OF h] Cons.IH[OF w] show ?case by simp
qed

text \<open>
  Claim C2. Within one monitoring session (a run in which no \<open>start\<close> gets through)
  that begins in a state with at most one live poll thread, and with any interleaving
  of button presses, queue drains and thread steps: the ids in the \<open>new\<close> lists of all
  update messages put on the queue are pairwise different, so an id is in at most one
  of these lists, and at most once; none of them was in the dedup set at the
  beginning; the dedup set at the end is the one at the beginning with exactly these
  ids added, so it never shrinks; and there is still at most one live poll thread.
  With a single poll thread no other thread reads or writes \<open>_tweet_ids\<close> between the
  fetch and the put, which is why one pass through the \<open>try\<close> block is one step of
  the run. For the loop of lines 212--216 itself: a post is appended to \<open>new\<close> exactly
  when its id is not in the set at that moment, and its id is inserted; the resulting
  set is the old one with the ids of all fetched posts; \<open>new\<close> is a subsequence of the
  fetched list, in its order; and the ids of \<open>new\<close> are the fetched ids that were not
  in the set.
\<close>

theorem dedup_invariant:
  "(single_poller s \<and> within_session L acts s \<longrightarrow>
      distinct (concat (map new_ids (run_emitted L acts s))) \<and>
      set (concat (map new_ids (run_emitted L acts s))) \<inter> tweet_ids s = {} \<and>
      tweet_ids (run L acts s) =
        tweet_ids s \<union> set (concat (map new_ids (run_emitted L acts s))) \<and>
      single_poller (run L acts s)) \<and>
   snd (collect_new (t # ts) ids []) =
     (if tweet_id t \<in> ids then snd (collect_new ts ids [])
      else t # snd (collect_new ts (insert (tweet_id t) ids) [])) \<and>
   fst (collect_new ts ids []) = ids \<union> set (map tweet_id ts) \<and>
   subseq (snd (collect_new ts ids [])) ts \<and>
   set (map tweet_id (snd (collect_new ts ids []))) = set (map tweet_id ts) - ids"
proof -
  have "single_poller (run L acts s)" if "single_poller s" "within_session L acts s"
    using that run_pollers[of L acts s] by (simp add: single_poller_def)
  then show ?thesis
    using run_fresh[of L acts s] collect_new_Cons[of t ts ids] collect_new_fst[of ts ids "[]"]
      collect_new_subseq[of ts ids] collect_new_ids[of ts ids]
    unfolding fresh_ids_def by blast
qed

lemma sample_polling_eq:
  "sample_polling =
     sample_initial\<lparr>api := Some sample_api, user_id := PStr ''42'', running := True,
        monitoring_start := Some 63905014800000000, poll_thread := Some 0,
        threads := [PollThread ''nasa'' 5 1 InTry], mode_var := DemoMode,
        start_btn_enabled := False, stop_btn_enabled := True,
        log_lines := [LogReady, LogConnected ''nasa'']\<rparr>"
  by (simp add: sample_polling_def sample_running_eq)

lemma sample_polling_fields:
  "api sample_polling = Some sample_api" "running sample_polling"
  "monitoring_start sample_polling = Some 63905014800000000"
  "tweet_ids sample_polling = {}" "q sample_polling = []"
  "threads sample_polling = [PollThread ''nasa'' 5 1 InTry]"
  by (simp_all add: sample_polling_eq sample_initial_def init_def)

lemma sample_refresh: "refresh_due 5 1" "refresh_due 5 (Suc 0)" "\<not> refresh_due 5 2"
  by (simp_all add: refresh_due_def)

lemma sample_collect:
  "collect_new [sample_tweet ''t2'' 63905027400000000, sample_tweet ''t1'' 63905011200000000]
     {} [] =
   ({''t1'', ''t2''},
    [sample_tweet ''t2'' 63905027400000000, sample_tweet ''t1'' 63905011200000000])"
  "collect_new [sample_tweet ''t3'' 63905047200000000, sample_tweet ''t2'' 63905027400000000]
     {''t1'', ''t2''} [] =
   ({''t1'', ''t2'', ''t3''}, [sample_tweet ''t3'' 63905047200000000])"
  by (auto simp add: sample_tweet_def)

lemma sample_tick1:
  "poll_try sample_env1 ''nasa'' 5 (Suc 0) sample_polling =
     sample_polling\<lparr>tweet_ids := {''t1'', ''t2''}, q := [UpdateMsg sample_update1]\<rparr>"
  by (simp add: poll_try_def sample_polling_fields sample_env1_def sample_refresh
      sample_collect start_of_day_def day_us_def q_put_def sample_update1_def
      sample_tweet_def Let_def)

lemma sample_slept_fields:
  "api sample_slept = Some sample_api" "running sample_slept"
  "monitoring_start sample_slept = Some 63905014800000000"
  "tweet_ids sample_slept = {''t1'', ''t2''}" "q sample_slept = [UpdateMsg sample_update1]"
  "threads sample_slept = [PollThread ''nasa'' 5 1 (Sleeping 50)]"
  by (simp_all add: sample_slept_def sample_polling_fields)

lemma sample_polling2_fields:
  "api sample_polling2 = Some sample_api" "running sample_polling2"
  "monitoring_start sample_polling2 = Some 63905014800000000"
  "tweet_ids sample_polling2 = {''t1'', ''t2''}" "q sample_polling2 = [UpdateMsg sample_update1]"
  "threads sample_polling2 = [PollThread ''nasa'' 5 2 InTry]"
  by (simp_all add: sample_polling2_def sample_slept_fields)

lemma sample_step1:
  "exec sample_lib (PollStep 0 sample_env1) sample_polling = sample_slept"
  by (simp add: sample_polling_fields sample_tick1 set_thread_def sample_slept_def)

lemma sample_step2:
  "run sample_lib sample_sleep sample_slept = sample_polling2 \<and>
   run_emitted sample_lib sample_sleep sample_slept = [] \<and>
   within_session sample_lib sample_sleep sample_slept"
proof -
  have a: "running sample_slept" "0 < length (threads sample_slept)"
    "threads sample_slept ! 0 = PollThread ''nasa'' 5 1 (Sleeping 50)"
    by (simp_all add: sample_slept_fields)
  have eq: "set_thread 0 (PollThread ''nasa'' 5 (1 + 1) InTry) sample_slept = sample_polling2"
    by (simp add: set_thread_def sample_polling2_def sample_slept_fields)
  from next_tick[OF a, of sample_lib sample_env2, unfolded eq]
  show ?thesis unfolding sample_sleep_def .
qed

lemma sample_tick2:
  "poll_try sample_env2 ''nasa'' 5 2 sample_polling2 =
     sample_polling2\<lparr>tweet_ids := {''t3'', ''t1'', ''t2''},
        q := [UpdateMsg sample_update1, UpdateMsg sample_update2]\<rparr>"
  by (simp add: poll_try_def sample_polling2_fields sample_env2_def sample_refresh
      start_of_day_def day_us_def q_put_def sample_update2_def
      sample_tweet_def Let_def)

lemma sample_step3:
  "exec sample_lib (PollStep 0 sample_env2) sample_polling2 = sample_done"
  by (simp add: sample_polling2_fields sample_tick2 set_thread_def sample_done_def)

lemma sample_done_fields:
  "running sample_done" "tweet_ids sample_done = {''t3'', ''t1'', ''t2''}"
  "q sample_done = [UpdateMsg sample_update1, UpdateMsg sample_update2]"
  by (simp_all add: sample_done_def sample_polling2_fields)

lemma sample_session_run:
  "within_session sample_lib sample_session sample_polling \<and>
   run_emitted sample_lib sample_session sample_polling =
     [UpdateMsg sample_update1, UpdateMsg sample_update2] \<and>
   run sample_lib sample_session sample_polling = sample_done"
proof -
  have em1: "emitted sample_lib (PollStep 0 sample_env1) sample_polling = [UpdateMsg sample_update1]"
    unfolding emitted_def sample_step1
    by (simp add: sample_polling_fields sample_slept_fields)
  have em3: "emitted sample_lib (PollStep 0 sample_env2) sample_polling2 = [UpdateMsg sample_update2]"
    unfolding emitted_def sample_step3
    by (simp add: sample_polling2_fields sample_done_fields)
  have r: "run sample_lib sample_session sample_polling = sample_done"
    by (simp only: sample_session_def run.simps run_append sample_step1 sample_step2 sample_step3)
  have e: "run_emitted sample_lib sample_session sample_polling =
     [UpdateMsg sample_update1, UpdateMsg sample_update2]"
    by (simp only: sample_session_def run_emitted.simps run_emitted_append sample_step1
        sample_step2 sample_step3 em1 em3 append.simps)
  have w: "within_session sample_lib sample_session sample_polling"
    by (simp only: sample_session_def within_session.simps within_session_append sample_step1
        sample_step2 sample_step3 sample_polling_fields sample_slept_fields
        sample_polling2_fields sample_done_fields simp_thms)
  from w e r show ?thesis by blast
qed

theorem dedup_invariant_witness:
  "single_poller sample_polling \<and>
   within_session sample_lib sample_session sample_polling \<and>
   map new_ids (run_emitted sample_lib sample_session sample_polling) =
     [[''t2'', ''t1''], [''t3'']] \<and>
   distinct (concat (map new_ids (run_emitted sample_lib sample_session sample_polling))) \<and>
   tweet_ids sample_polling = {} \<and>
   tweet_ids (run sample_lib sample_session sample_polling) = {''t1'', ''t2'', ''t3''}"
proof -
  note r = sample_session_run
  have sp: "single_poller sample_polling"
    by (simp add: single_poller_def sample_polling_fields)
  have n: "map new_ids (run_emitted sample_lib sample_session sample_polling) =
     [[''t2'', ''t1''], [''t3'']]"
    using r by (simp add: sample_update1_def sample_update2_def sample_tweet_def)
  have t: "tweet_ids (run sample_lib sample_session sample_polling) = {''t1'', ''t2'', ''t3''}"
    using r sample_done_fields(2) by auto
  from dedup_invariant[of sample_polling sample_lib sample_session] r sp
  have "distinct (concat (map new_ids (run_emitted sample_lib sample_session sample_polling)))"
    by blast
  with r sp n t sample_polling_fields(4) show ?thesis by blast
qed

section \<open>Threads exist only after a start that got through\<close>

lemma poll_loop_length:
  "length (threads (poll_loop env i u iv c pc s)) = length (threads s)"
  by (cases "(env, i, u, iv, c, pc, s)" rule: poll_loop.cases)
     (simp_all add: set_thread_def poll_try_frame)

lemma exec_threads_origin:
  assumes "\<And>ctor info_r now. a \<noteq> ClickStart ctor info_r now"
    and "threads (exec L a s) \<noteq> []"
  shows "threads s \<noteq> [] \<or> (api s \<noteq> None \<and> truthy (user_id s))"
proof (cases a)
  case (ClickStart ctor info_r now)
  with assms(1) show ?thesis by blast
next
  case ClickCount
  with assms(2) show ?thesis
    by (auto simp add: count_range_def Let_def effect_defs split: option.splits if_splits)
next
  case (PollStep i env)
  with assms(2) poll_loop_length[of env i _ _ _ _ s] show ?thesis
    by (auto split: thread.splits if_splits simp del: poll_loop.simps)
next
  case (WorkerStep i res)
  with assms(2) show ?thesis
    by (auto simp add: worker_frame split: thread.splits if_splits)
qed (use assms(2) in \<open>simp_all add: stop_frame drain_queue_frame\<close>)

lemma started_inv_exec: "started_inv s \<Longrightarrow> started_inv (exec L a s)"
proof (cases "\<exists>ctor info_r now. a = ClickStart ctor info_r now")
  case True
  assume inv: "started_inv s"
  from True obtain ctor info_r now where a: "a = ClickStart ctor info_r now" by blast
  let ?s' = "start L ctor info_r now s"
  show ?thesis
  proof (cases "running s")
    case True
    with inv a show ?thesis by (simp add: start_running)
  next
    case idle: False
    show ?thesis
    proof (cases "running ?s'")
      case True
      from start_started[OF True idle] a show ?thesis by (simp add: started_inv_def)
    next
      case False
      from start_failed[OF False] start_frame[of L ctor info_r now s] inv a
      show ?thesis by (auto simp add: started_inv_def)
    qed
  qed
next
  case False
  assume inv: "started_inv s"
  from False have ns: "\<And>ctor info_r now. a \<noteq> ClickStart ctor info_r now" by blast
  from exec_frame[OF ns, of L s] exec_threads_origin[OF ns, of L s] inv
  show ?thesis by (auto simp add: started_inv_def)
qed

lemma started_inv_run: "started_inv s \<Longrightarrow> started_inv (run L acts s)"
  by (induction acts arbitrary: s) (simp_all add: started_inv_exec)

lemma started_inv_init: "started_inv (init u iv rs re)"
  by (simp add: started_inv_def init_def)

lemma reachable_thread:
  assumes "s = run L acts (init u0 iv0 rs0 re0)" and "i < length (threads s)"
  shows "api s \<noteq> None \<and> monitoring_start s \<noteq> None"
proof -
  have "started_inv s"
    using assms(1) started_inv_run[OF started_inv_init] by simp
  moreover have "threads s \<noteq> []" using assms(2) by auto
  ultimately show ?thesis by (simp add: started_inv_def)
qed

section \<open>One pass through the try block\<close>

lemma poll_try_update:
  assumes "api s \<noteq> None" and "monitoring_start s = Some m"
    and "tweets_res env = Inr tweets"
    and "refresh_due iv c \<longrightarrow> info_res env = Inr info"
  shows "poll_try env u iv c s =
     s\<lparr>tweet_ids := fst (collect_new tweets (tweet_ids s) []),
        q := q s @
          [UpdateMsg
            \<lparr>u_now = clock env, u_tweets = tweets,
             u_new = snd (collect_new tweets (tweet_ids s) []),
             u_today = length (filter (\<lambda>t. start_of_day (clock env) \<le> created_at t) tweets),
             u_period = length (filter (\<lambda>t. m \<le> created_at t) tweets),
             u_info = (if refresh_due iv c then info else None)\<rparr>]\<rparr>"
  using assms by (auto simp add: poll_try_def Let_def q_put_def)

lemma poll_try_error:
  assumes "api s \<noteq> None"
    and "tweets_res env = Inl e \<or>
         (\<exists>tweets. tweets_res env = Inr tweets) \<and> refresh_due iv c \<and> info_res env = Inl e"
  shows "poll_try env u iv c s = s\<lparr>q := q s @ [ErrorMsg e]\<rparr>"
  using assms by (auto simp add: poll_try_def Let_def q_put_def)

lemma exec_in_try:
  assumes "i < length (threads s)" and "threads s ! i = PollThread u iv c InTry"
  shows "exec L (PollStep i env) s =
     set_thread i (PollThread u iv c (Sleeping (nat (iv * 10)))) (poll_try env u iv c s)"
  using assms by simp

lemma sample_boot_run:
  "run sample_lib sample_boot (init ''@nasa'' ''5'' ''2026-01-26 09:00'' ''2026-01-26 18:00'')
     = sample_polling"
proof -
  have 1: "exec sample_lib
      (ClickStart (Inr sample_api) (Inr (Some [(''id'', PStr ''42'')])) 63905014800000000)
      (init ''@nasa'' ''5'' ''2026-01-26 09:00'' ''2026-01-26 18:00'') = sample_running"
    by (simp add: sample_running_def sample_initial_def)
  have 2: "exec sample_lib (PollStep 0 sample_env1) sample_running =
      sample_running\<lparr>threads := [PollThread ''nasa'' 5 0 AtWhile]\<rparr>"
    by (simp add: sample_running_eq sample_initial_def init_def set_thread_def)
  have 3: "exec sample_lib (PollStep 0 sample_env1)
      (sample_running\<lparr>threads := [PollThread ''nasa'' 5 0 AtWhile]\<rparr>) = sample_polling"
    by (simp add: sample_polling_def sample_running_eq sample_initial_def init_def set_thread_def)
  show ?thesis
    by (simp only: sample_boot_def run.simps 1 2 3)
qed




text \<open>
  Claim C5. In every state the application can reach, when a poll thread is inside
  its \<open>try\<close> block and \<open>get_recent_tweets\<close> raises, or \<open>get_user_info\<close> raises on a
  tick where the refresh is due, the step appends exactly one error message carrying
  \<open>str(e)\<close> to the queue and moves the thread to its sleep; nothing else changes, so
  \<open>running\<close>, the dedup set and \<open>monitoring_start\<close> are as before and the thread is
  alive. If \<open>running\<close> is set, the thread then sleeps its rounds and enters the
  \<open>try\<close> block of the next cycle.
\<close>

theorem fetch_failure_tolerated:
  assumes "s = run L acts (init u0 iv0 rs0 re0)"
    and "i < length (threads s)"
    and "threads s ! i = PollThread u iv c InTry"
    and "tweets_res env = Inl e \<or>
         (\<exists>tweets. tweets_res env = Inr tweets) \<and> refresh_due iv c \<and> info_res env = Inl e"
  shows "exec L (PollStep i env) s =
           s\<lparr>q := q s @ [ErrorMsg e],
              threads := (threads s)[i := PollThread u iv c (Sleeping (nat (iv * 10)))]\<rparr> \<and>
         running (exec L (PollStep i env) s) = running s \<and>
         tweet_ids (exec L (PollStep i env) s) = tweet_ids s \<and>
         monitoring_start (exec L (PollStep i env) s) = monitoring_start s \<and>
         thread_alive (threads (exec L (PollStep i env) s) ! i) \<and>
         (running s \<longrightarrow>
            run L (PollStep i env #
                   replicate (nat (iv * 10)) (PollStep i env') @
                   [PollStep i env', PollStep i env']) s =
              s\<lparr>q := q s @ [ErrorMsg e],
                 threads := (threads s)[i := PollThread u iv (c + 1) InTry]\<rparr>)"
proof -
  let ?s1 = "s\<lparr>q := q s @ [ErrorMsg e],
              threads := (threads s)[i := PollThread u iv c (Sleeping (nat (iv * 10)))]\<rparr>"
  from reachable_thread[OF assms(1,2)] have a: "api s \<noteq> None" by simp
  have e1: "exec L (PollStep i env) s = ?s1"
    using poll_try_error[OF a assms(4), of u] exec_in_try[OF assms(2,3), of L env]
    by (simp add: set_thread_def del: exec.simps)
  have f: "i < length (threads ?s1)"
    "threads ?s1 ! i = PollThread u iv c (Sleeping (nat (iv * 10)))"
    using assms(2) by simp_all
  have n: "run L (replicate (nat (iv * 10)) (PollStep i env') @
                   [PollStep i env', PollStep i env']) ?s1 =
             s\<lparr>q := q s @ [ErrorMsg e],
                 threads := (threads s)[i := PollThread u iv (c + 1) InTry]\<rparr>"
    if "running s"
  proof -
    from that have "running ?s1" by simp
    from next_tick[OF this f, of L env'] show ?thesis
      by (simp add: set_thread_def del: exec.simps run.simps)
  qed
  have "thread_alive (threads ?s1 ! i)" using f by simp
  with e1 n show ?thesis
    by (simp del: exec.simps)
qed

theorem fetch_failure_tolerated_witness:
  "sample_polling =
     run sample_lib sample_boot (init ''@nasa'' ''5'' ''2026-01-26 09:00'' ''2026-01-26 18:00'') \<and>
   0 < length (threads sample_polling) \<and>
   threads sample_polling ! 0 = PollThread ''nasa'' 5 1 InTry \<and>
   tweets_res sample_env_fail = Inl ''429 Too Many Requests'' \<and>
   running sample_polling \<and>
   exec sample_lib (PollStep 0 sample_env_fail) sample_polling =
     sample_polling\<lparr>q := [ErrorMsg ''429 Too Many Requests''],
        threads := [PollThread ''nasa'' 5 1 (Sleeping 50)]\<rparr> \<and>
   run sample_lib (PollStep 0 sample_env_fail #
        replicate 50 (PollStep 0 sample_env2) @
        [PollStep 0 sample_env2, PollStep 0 sample_env2]) sample_polling =
     sample_polling\<lparr>q := [ErrorMsg ''429 Too Many Requests''],
        threads := [PollThread ''nasa'' 5 2 InTry]\<rparr>"
proof -
  have r: "sample_polling =
     run sample_lib sample_boot (init ''@nasa'' ''5'' ''2026-01-26 09:00'' ''2026-01-26 18:00'')"
    by (simp only: sample_boot_run)
  have l: "0 < length (threads sample_polling)"
    and t: "threads sample_polling ! 0 = PollThread ''nasa'' 5 1 InTry"
    by (simp_all add: sample_polling_fields)
  have f: "tweets_res sample_env_fail = Inl ''429 Too Many Requests''"
    by (simp add: sample_env_fail_def)
  then have f': "tweets_res sample_env_fail = Inl ''429 Too Many Requests'' \<or>
         (\<exists>tweets. tweets_res sample_env_fail = Inr tweets) \<and> refresh_due 5 1 \<and>
         info_res sample_env_fail = Inl ''429 Too Many Requests''" by blast
  have k: "nat (5 * 10) = 50" "(1::nat) + 1 = 2"
    "(threads sample_polling)[0 := x] = [x]" "q sample_polling = []" for x
    by (simp_all add: sample_polling_fields)
  note th = fetch_failure_tolerated[OF r l t f', where env' = sample_env2, unfolded k append_Nil]
  from th r l t f sample_polling_fields(2) show ?thesis by blast
qed

section \<open>Stopping while a fetch is in flight\<close>

lemma drain_snoc: "drain (ms @ [m]) s = dispatch m (drain ms s)"
  by (induction ms arbitrary: s) simp_all

lemma apply_update_shown:
  "last_update_var (apply_update p s) = Some (u_now p) \<and>
   today_var (apply_update p s) = Some (u_today p) \<and>
   period_var (apply_update p s) = Some (u_period p)"
proof -
  have "last_update_var (fold (\<lambda>t. log_line (LogNew t)) xs s') = last_update_var s' \<and>
        today_var (fold (\<lambda>t. log_line (LogNew t)) xs s') = today_var s' \<and>
        period_var (fold (\<lambda>t. log_line (LogNew t)) xs s') = period_var s'" for xs s'
    by (induction xs arbitrary: s') (simp_all add: log_line_def)
  then show ?thesis
    by (simp add: apply_update_def Let_def split: option.splits)
qed

lemma stop_running:
  "running s \<Longrightarrow>
   stop s = s\<lparr>running := False, start_btn_enabled := True, stop_btn_enabled := False,
              log_lines := log_lines s @ [LogStopped]\<rparr>"
  by (simp add: stop_def log_line_def)

lemma other_action_thread:
  assumes "\<not> is_step_of i a" and "i < length (threads s)"
    and "threads s ! i = PollThread u iv c pc"
  shows "i < length (threads (exec L a s)) \<and> threads (exec L a s) ! i = PollThread u iv c pc"
proof (cases a)
  case (ClickStart ctor info_r now)
  with assms(2,3) show ?thesis
    by (simp add: start_threads[of L ctor info_r now s] nth_append)
next
  case ClickStop
  with assms(2,3) show ?thesis by (simp add: stop_frame)
next
  case ClickCount
  have "threads (count_range L s) = threads s \<or>
        (\<exists>a b. threads (count_range L s) = threads s @ [RangeWorker a b True])"
    by (auto simp add: count_range_def Let_def effect_defs split: option.splits)
  with ClickCount assms(2,3) show ?thesis by (auto simp add: nth_append)
next
  case Drain
  with assms(2,3) show ?thesis by (simp add: drain_queue_frame)
next
  case (PollStep j env)
  with assms(1) have ji: "j \<noteq> i" by simp
  show ?thesis
  proof (cases "j < length (threads s)")
    case False
    with PollStep assms(2,3) show ?thesis by simp
  next
    case True
    show ?thesis
    proof (cases "threads s ! j")
      case (RangeWorker a b alive)
      with PollStep True assms(2,3) show ?thesis by simp
    next
      case (PollThread u' iv' c' pc')
      from poll_loop_threads[OF True this, of env] obtain c'' pc'' where
        "threads (poll_loop env j u' iv' c' pc' s) = (threads s)[j := PollThread u' iv' c'' pc'']"
        by blast
      with PollStep True PollThread assms(2,3) ji show ?thesis by simp
    qed
  qed
next
  case (WorkerStep j res)
  show ?thesis
  proof (cases "j = i")
    case True
    with WorkerStep assms(2,3) show ?thesis by simp
  next
    case False
    with WorkerStep assms(2,3) show ?thesis
      by (simp add: worker_frame split: thread.splits)
  qed
qed (use assms(2,3) in simp_all)

lemma own_step_stopped:
  assumes "\<not> running s" and "i < length (threads s)"
    and "threads s ! i = PollThread u iv c (pc_after iv n)"
  shows "i < length (threads (exec L (PollStep i env) s)) \<and>
         threads (exec L (PollStep i env) s) ! i = PollThread u iv c (pc_after iv (Suc n)) \<and>
         \<not> running (exec L (PollStep i env) s) \<and>
         length (emitted L (PollStep i env) s) = (if n = 0 then 1 else 0)"
proof -
  consider (fetching) "n = 0" | (sleeping) "n = Suc 0" | (testing) "n = Suc (Suc 0)"
    | (gone) m where "n = Suc (Suc (Suc m))"
    by (metis not0_implies_Suc)
  then show ?thesis
  proof cases
    case fetching
    from poll_try_cases[of env u iv c s] obtain m where
      "q (poll_try env u iv c s) = q s @ [m]" by blast
    with fetching assms show ?thesis
      by (simp add: emitted_def set_thread_def poll_try_frame)
  next
    case sleeping
    with assms show ?thesis
      by (cases "nat (iv * 10)") (simp_all add: emitted_def set_thread_def)
  next
    case testing
    with assms show ?thesis
      by (simp add: emitted_def set_thread_def)
  next
    case gone
    with assms show ?thesis
      by (simp add: emitted_def)
  qed
qed

lemma wind_down_run:
  assumes "\<not> running s" and "never_started L acts s" and "i < length (threads s)"
    and "threads s ! i = PollThread u iv c (pc_after iv n)"
  shows "i < length (threads (run L acts s)) \<and>
         threads (run L acts s) ! i =
           PollThread u iv c (pc_after iv (n + length (filter (is_step_of i) acts))) \<and>
         length (emitted_by L i acts s) =
           (if n = 0 \<and> filter (is_step_of i) acts \<noteq> [] then 1 else 0)"
  using assms
proof (induction acts arbitrary: s n)
  case Nil
  then show ?case by simp
next
  case (Cons a acts)
  from Cons.prems(2) have nr: "\<not> running (exec L a s)"
    and ns: "never_started L acts (exec L a s)" by simp_all
  show ?case
  proof (cases "is_step_of i a")
    case True
    then obtain env where a: "a = PollStep i env"
      by (cases a) simp_all
    note st = own_step_stopped[OF Cons.prems(1,3,4), of L env]
    from st have len: "i < length (threads (exec L a s))"
      and th: "threads (exec L a s) ! i = PollThread u iv c (pc_after iv (Suc n))"
      and em: "length (emitted L a s) = (if n = 0 then 1 else 0)"
      unfolding a by blast+
    from Cons.IH[OF nr ns len th] True em show ?thesis
      by (simp del: exec.simps)
  next
    case False
    from other_action_thread[OF False Cons.prems(3,4), of L]
    have len: "i < length (threads (exec L a s))"
      and th: "threads (exec L a s) ! i = PollThread u iv c (pc_after iv n)"
      by blast+
    from Cons.IH[OF nr ns len th] False show ?thesis
      by (simp del: exec.simps)
  qed
qed

lemma never_started_without_start:
  assumes "\<not> running s" and "\<forall>a \<in> set acts. \<forall>ctor info_r now. a \<noteq> ClickStart ctor info_r now"
  shows "never_started L acts s"
  using assms
proof (induction acts arbitrary: s)
  case Nil
  then show ?case by simp
next
  case (Cons a acts)
  from Cons.prems(2) have "\<And>ctor info_r now. a \<noteq> ClickStart ctor info_r now" by simp
  from exec_frame[OF this, of L s] Cons.prems(1) have "\<not> running (exec L a s)" by blast
  with Cons show ?case by simp
qed

lemma inflight_update_applied:
  assumes "s = run L acts (init u0 iv0 rs0 re0)"
    and "i < length (threads s)"
    and "threads s ! i = PollThread u iv c InTry"
    and "tweets_res env = Inr tweets"
    and "refresh_due iv c \<longrightarrow> info_res env = Inr info"
  shows "\<exists>p. q (exec L (PollStep i env) s) = q s @ [UpdateMsg p] \<and>
            u_now p = clock env \<and> u_tweets p = tweets \<and>
            u_new p = snd (collect_new tweets (tweet_ids s) []) \<and>
            drain_queue (exec L (PollStep i env) s) =
              apply_update p (drain (q s) ((exec L (PollStep i env) s)\<lparr>q := []\<rparr>)) \<and>
            last_update_var (drain_queue (exec L (PollStep i env) s)) = Some (clock env) \<and>
            today_var (drain_queue (exec L (PollStep i env) s)) = Some (u_today p)"
proof -
  from reachable_thread[OF assms(1,2)] obtain m where
    a: "api s \<noteq> None" and m: "monitoring_start s = Some m" by auto
  define p where "p =
         \<lparr>u_now = clock env, u_tweets = tweets,
          u_new = snd (collect_new tweets (tweet_ids s) []),
          u_today = length (filter (\<lambda>t. start_of_day (clock env) \<le> created_at t) tweets),
          u_period = length (filter (\<lambda>t. m \<le> created_at t) tweets),
          u_info = (if refresh_due iv c then info else None)\<rparr>"
  let ?s2 = "exec L (PollStep i env) s"
  from poll_try_update[OF a m assms(4,5), of u] exec_in_try[OF assms(2,3), of L env]
  have q2: "q ?s2 = q s @ [UpdateMsg p]"
    by (simp add: set_thread_def p_def del: exec.simps)
  have d: "drain_queue ?s2 = apply_update p (drain (q s) (?s2\<lparr>q := []\<rparr>))"
    unfolding drain_queue_def q2 drain_snoc by simp
  have shown: "last_update_var (drain_queue ?s2) = Some (clock env)"
    "today_var (drain_queue ?s2) = Some (u_today p)"
    unfolding d by (simp_all add: apply_update_shown) (simp add: p_def)
  have "u_now p = clock env" "u_tweets p = tweets"
    "u_new p = snd (collect_new tweets (tweet_ids s) [])"
    by (simp_all add: p_def)
  with q2 d shown show ?thesis by blast
qed

lemma pc_after_returned: "3 \<le> n \<Longrightarrow> pc_after iv n = Returned"
proof -
  assume "3 \<le> n"
  then obtain m where "n = Suc (Suc (Suc m))"
    by (metis add_Suc le_Suc_ex numeral_3_eq_3 plus_nat.add_0)
  then show ?thesis by simp
qed

text \<open>
  Claim C4, as amended. When \<open>stop\<close> is called while \<open>running\<close> is set and a poll thread
  is inside its \<open>try\<close> block, \<open>stop\<close> clears the flag and leaves the thread where it
  is: the fetch is not interrupted. From there on, in every run in which no \<open>start\<close>
  gets through, whatever else happens in between: where the thread stands depends
  only on the number of steps it has taken itself, namely in the \<open>try\<close> block, in the
  sleep, at the \<open>while\<close> test, returned, always in the same cycle, so the sleep loop
  breaks at its first test of the flag, the \<open>while\<close> test ends the thread, and no
  further tick begins; the thread puts exactly one message on the queue, with its
  first step. When that step finds both fetches successful, the message is the
  update of the tick in flight, put as on any other tick, and the next
  \<open>_drain_queue\<close> hands it to \<open>_apply_update\<close>, which shows its clock value and
  counts.
\<close>

theorem stop_during_fetch:
  assumes "s = run L acts0 (init u0 iv0 rs0 re0)"
    and "running s"
    and "i < length (threads s)"
    and "threads s ! i = PollThread u iv c InTry"
    and "never_started L acts (stop s)"
  shows "\<not> running (stop s) \<and> threads (stop s) = threads s \<and> q (stop s) = q s \<and>
         threads (run L acts (stop s)) ! i =
           PollThread u iv c (pc_after iv (length (filter (is_step_of i) acts))) \<and>
         (3 \<le> length (filter (is_step_of i) acts) \<longrightarrow>
            threads (run L acts (stop s)) ! i = PollThread u iv c Returned) \<and>
         length (emitted_by L i acts (stop s)) =
           (if filter (is_step_of i) acts = [] then 0 else 1) \<and>
         (filter (is_step_of i) acts = [] \<and> tweets_res env = Inr tweets \<and>
          (refresh_due iv c \<longrightarrow> info_res env = Inr info) \<longrightarrow>
            (\<exists>p. q (exec L (PollStep i env) (run L acts (stop s))) =
                   q (run L acts (stop s)) @ [UpdateMsg p] \<and>
                 u_now p = clock env \<and> u_tweets p = tweets \<and>
                 u_new p = snd (collect_new tweets (tweet_ids (run L acts (stop s))) []) \<and>
                 drain_queue (exec L (PollStep i env) (run L acts (stop s))) =
                   apply_update p
                     (drain (q (run L acts (stop s)))
                        ((exec L (PollStep i env) (run L acts (stop s)))\<lparr>q := []\<rparr>)) \<and>
                 last_update_var (drain_queue (exec L (PollStep i env) (run L acts (stop s)))) =
                   Some (clock env) \<and>
                 today_var (drain_queue (exec L (PollStep i env) (run L acts (stop s)))) =
                   Some (u_today p)))"
proof -
  let ?s1 = "stop s"
  let ?n = "length (filter (is_step_of i) acts)"
  have s1: "\<not> running ?s1" "threads ?s1 = threads s" "q ?s1 = q s"
    by (simp_all add: stop_frame running_stop)
  have i1: "i < length (threads ?s1)" "threads ?s1 ! i = PollThread u iv c (pc_after iv 0)"
    using assms(3,4) s1(2) by simp_all
  from wind_down_run[OF s1(1) assms(5) i1]
  have w: "i < length (threads (run L acts ?s1))"
    "threads (run L acts ?s1) ! i = PollThread u iv c (pc_after iv ?n)"
    "length (emitted_by L i acts ?s1) = (if filter (is_step_of i) acts = [] then 0 else 1)"
    by simp_all
  have ret: "threads (run L acts ?s1) ! i = PollThread u iv c Returned" if "3 \<le> ?n"
    using w(2) pc_after_returned[OF that] by simp
  have r: "run L acts ?s1 = run L (acts0 @ ClickStop # acts) (init u0 iv0 rs0 re0)"
    unfolding assms(1) by (simp add: run_append)
  have upd: "\<exists>p. q (exec L (PollStep i env) (run L acts ?s1)) =
                   q (run L acts ?s1) @ [UpdateMsg p] \<and>
                 u_now p = clock env \<and> u_tweets p = tweets \<and>
                 u_new p = snd (collect_new tweets (tweet_ids (run L acts ?s1)) []) \<and>
                 drain_queue (exec L (PollStep i env) (run L acts ?s1)) =
                   apply_update p
                     (drain (q (run L acts ?s1))
                        ((exec L (PollStep i env) (run L acts ?s1))\<lparr>q := []\<rparr>)) \<and>
                 last_update_var (drain_queue (exec L (PollStep i env) (run L acts ?s1))) =
                   Some (clock env) \<and>
                 today_var (drain_queue (exec L (PollStep i env) (run L acts ?s1))) =
                   Some (u_today p)"
    if none: "filter (is_step_of i) acts = []" and ok: "tweets_res env = Inr tweets"
      "refresh_due iv c \<longrightarrow> info_res env = Inr info"
  proof -
    from w(2) none have "threads (run L acts ?s1) ! i = PollThread u iv c InTry" by simp
    from inflight_update_applied[OF r w(1) this ok] show ?thesis .
  qed
  from s1 w(2,3) ret upd show ?thesis by blast
qed

lemma sample_stopped_fields:
  "api (stop sample_polling) = Some sample_api" "\<not> running (stop sample_polling)"
  "monitoring_start (stop sample_polling) = Some 63905014800000000"
  "tweet_ids (stop sample_polling) = {}" "q (stop sample_polling) = []"
  "threads (stop sample_polling) = [PollThread ''nasa'' 5 1 InTry]"
  "last_update_var (stop sample_polling) = None"
  by (simp_all add: stop_running sample_polling_fields)
     (simp add: sample_polling_eq sample_initial_def init_def)

lemma sample_stopped_tick:
  "q (exec sample_lib (PollStep 0 sample_env1) (stop sample_polling)) =
     [UpdateMsg sample_update1]"
proof -
  have "q (poll_try sample_env1 ''nasa'' 5 (Suc 0) (stop sample_polling)) =
     [UpdateMsg sample_update1]"
    by (simp add: poll_try_def sample_stopped_fields sample_env1_def sample_refresh
      sample_collect start_of_day_def day_us_def q_put_def sample_update1_def
      sample_tweet_def Let_def)
  then show ?thesis
    by (simp add: sample_stopped_fields set_thread_def)
qed

text \<open>
  Claim C4 as stated fails. The sample poll thread is inside its \<open>try\<close> block when
  \<open>stop\<close> is pressed; the fetch completes with two posts; the thread puts the update
  on the queue although \<open>running\<close> is cleared, and \<open>_drain_queue\<close> applies it: the
  "last update" label, empty before, shows the clock value of that tick.
\<close>

theorem inflight_update_discarded_counterexample:
  "running sample_polling \<and>
   threads sample_polling ! 0 = PollThread ''nasa'' 5 1 InTry \<and>
   \<not> running (stop sample_polling) \<and>
   q (stop sample_polling) = [] \<and>
   q (exec sample_lib (PollStep 0 sample_env1) (stop sample_polling)) =
     [UpdateMsg sample_update1] \<and>
   last_update_var (stop sample_polling) = None \<and>
   last_update_var
     (drain_queue (exec sample_lib (PollStep 0 sample_env1) (stop sample_polling))) =
     Some 63905047200000000 \<and>
   today_var
     (drain_queue (exec sample_lib (PollStep 0 sample_env1) (stop sample_polling))) = Some 2"
proof -
  have t: "threads sample_polling ! 0 = PollThread ''nasa'' 5 1 InTry"
    by (simp add: sample_polling_fields)
  have d: "drain_queue (exec sample_lib (PollStep 0 sample_env1) (stop sample_polling)) =
     apply_update sample_update1
       ((exec sample_lib (PollStep 0 sample_env1) (stop sample_polling))\<lparr>q := []\<rparr>)"
    unfolding drain_queue_def sample_stopped_tick by simp
  have l: "last_update_var
     (drain_queue (exec sample_lib (PollStep 0 sample_env1) (stop sample_polling))) =
     Some 63905047200000000"
    "today_var
     (drain_queue (exec sample_lib (PollStep 0 sample_env1) (stop sample_polling))) = Some 2"
    unfolding d by (simp_all add: apply_update_shown sample_update1_def)
  from sample_polling_fields(2) t sample_stopped_fields(2,5,7) sample_stopped_tick l
  show ?thesis by blast
qed

theorem stop_during_fetch_witness:
  "sample_polling =
     run sample_lib sample_boot (init ''@nasa'' ''5'' ''2026-01-26 09:00'' ''2026-01-26 18:00'') \<and>
   running sample_polling \<and>
   0 < length (threads sample_polling) \<and>
   threads sample_polling ! 0 = PollThread ''nasa'' 5 1 InTry \<and>
   never_started sample_lib sample_wind_down (stop sample_polling) \<and>
   length (filter (is_step_of 0) sample_wind_down) = 3 \<and>
   threads (run sample_lib sample_wind_down (stop sample_polling)) ! 0 =
     PollThread ''nasa'' 5 1 Returned \<and>
   length (emitted_by sample_lib 0 sample_wind_down (stop sample_polling)) = 1 \<and>
   never_started sample_lib [Drain] (stop sample_polling) \<and>
   filter (is_step_of 0) [Drain] = [] \<and>
   tweets_res sample_env1 =
     Inr [sample_tweet ''t2'' 63905027400000000, sample_tweet ''t1'' 63905011200000000] \<and>
   info_res sample_env1 = Inr (Some [(''id'', PStr ''42''), (''tweets'', PInt 10)]) \<and>
   last_update_var
     (drain_queue (exec sample_lib (PollStep 0 sample_env1)
        (run sample_lib [Drain] (stop sample_polling)))) = Some (clock sample_env1)"
proof -
  have r: "sample_polling =
     run sample_lib sample_boot (init ''@nasa'' ''5'' ''2026-01-26 09:00'' ''2026-01-26 18:00'')"
    by (simp only: sample_boot_run)
  have l: "0 < length (threads sample_polling)"
    and t: "threads sample_polling ! 0 = PollThread ''nasa'' 5 1 InTry"
    by (simp_all add: sample_polling_fields)
  have f: "tweets_res sample_env1 =
     Inr [sample_tweet ''t2'' 63905027400000000, sample_tweet ''t1'' 63905011200000000]"
    and g: "info_res sample_env1 = Inr (Some [(''id'', PStr ''42''), (''tweets'', PInt 10)])"
    by (simp_all add: sample_env1_def)
  from g have g': "refresh_due 5 1 \<longrightarrow>
      info_res sample_env1 = Inr (Some [(''id'', PStr ''42''), (''tweets'', PInt 10)])" by simp
  have n3: "length (filter (is_step_of 0) sample_wind_down) = 3"
    and ne: "filter (is_step_of 0) sample_wind_down \<noteq> []"
    by (simp_all add: sample_wind_down_def)
  have n0: "filter (is_step_of 0) [Drain] = []" by simp
  have ns: "never_started sample_lib sample_wind_down (stop sample_polling)"
    by (rule never_started_without_start) (simp_all add: running_stop sample_wind_down_def)
  have nd: "never_started sample_lib [Drain] (stop sample_polling)"
    by (rule never_started_without_start) (simp_all add: running_stop)
  note full = stop_during_fetch[OF r sample_polling_fields(2) l t ns]
  note part = stop_during_fetch[OF r sample_polling_fields(2) l t nd,
      where env = sample_env1]
  have le3: "3 \<le> length (filter (is_step_of 0) sample_wind_down)"
    by (simp only: n3)
  have a: "threads (run sample_lib sample_wind_down (stop sample_polling)) ! 0 =
     PollThread ''nasa'' 5 1 Returned"
    using full le3 by blast
  from full have "length (emitted_by sample_lib 0 sample_wind_down (stop sample_polling)) =
      (if filter (is_step_of 0) sample_wind_down = [] then 0 else 1)"
    by blast
  with ne have b: "length (emitted_by sample_lib 0 sample_wind_down (stop sample_polling)) = 1"
    by simp
  have c: "last_update_var
     (drain_queue (exec sample_lib (PollStep 0 sample_env1)
        (run sample_lib [Drain] (stop sample_polling)))) = Some (clock sample_env1)"
    using part n0 f g' by blast
  from r sample_polling_fields(2) l t ns n3 a b nd n0 f g c show ?thesis by blast
qed

section \<open>A start whose account lookup fails\<close>

text \<open>
  Claim C8. When \<open>start\<close> is called while the loop is not running and the account
  lookup fails (\<open>get_user_info\<close> raises, or returns nothing, or returns a dictionary
  without a usable id), then \<open>running\<close> stays clear, the thread table and
  \<open>_poll_thread\<close> are as before, so no poll thread exists that was not there, nothing
  is put on the queue, the dedup set, \<open>monitoring_start\<close> and \<open>range_count\<close> are
  untouched, and exactly one error box is shown. When the lookup was reached (the
  username is not empty, the interval parses and the constructor succeeded), the box
  is "Failed to start" with the failure text, and the state differs from the one
  before the call only in that box, in \<open>api\<close>, which holds the source just
  constructed, and in \<open>user_id\<close>, which holds what the lookup produced if it
  returned.
\<close>

theorem failed_lookup_aborts_start:
  assumes "\<not> running s"
    and "info_r = Inl e \<or> info_r = Inr None \<or>
         (\<exists>d. info_r = Inr (Some d) \<and> \<not> truthy (dict_get d ''id''))"
  shows "\<not> running (start L ctor info_r now s) \<and>
         threads (start L ctor info_r now s) = threads s \<and>
         poll_thread (start L ctor info_r now s) = poll_thread s \<and>
         q (start L ctor info_r now s) = q s \<and>
         tweet_ids (start L ctor info_r now s) = tweet_ids s \<and>
         monitoring_start (start L ctor info_r now s) = monitoring_start s \<and>
         range_count (start L ctor info_r now s) = range_count s \<and>
         (\<exists>title msg. dialogs (start L ctor info_r now s) = dialogs s @ [ShowError title msg]) \<and>
         (lstrip_at (strip (username_var s)) \<noteq> [] \<and>
          int_of_str L (if strip (interval_var s) = [] then ''60'' else strip (interval_var s))
            \<noteq> None \<and>
          ctor = Inr a \<longrightarrow>
            start L ctor info_r now s =
              s\<lparr>api := Some a,
                 user_id := (case info_r of Inl x \<Rightarrow> user_id s
                             | Inr None \<Rightarrow> PNone
                             | Inr (Some d) \<Rightarrow> dict_get d ''id''),
                 dialogs := dialogs s @
                   [ShowError ''Failed to start''
                      (case info_r of Inl x \<Rightarrow> x | Inr y \<Rightarrow> ''Could not fetch user info.'')]\<rparr>)"
proof -
  have dg: "dict_get [] ''id'' = PNone" by (simp add: dict_get_def)
  let ?uid = "case info_r of Inl x \<Rightarrow> user_id s | Inr None \<Rightarrow> PNone
              | Inr (Some d) \<Rightarrow> dict_get d ''id''"
  let ?msg = "case info_r of Inl x \<Rightarrow> x | Inr y \<Rightarrow> ''Could not fetch user info.''"
  have reached: "start L (Inr a) info_r now s =
      s\<lparr>api := Some a, user_id := ?uid,
         dialogs := dialogs s @ [ShowError ''Failed to start'' ?msg]\<rparr>"
    if u: "lstrip_at (strip (username_var s)) \<noteq> []"
      and n: "int_of_str L (if strip (interval_var s) = [] then ''60''
                            else strip (interval_var s)) = Some n" for n
  proof -
    have st: "start L (Inr a) info_r now s =
       (case info_r of
          Inl x \<Rightarrow> showerror ''Failed to start'' x (s\<lparr>api := Some a\<rparr>)
        | Inr info \<Rightarrow>
            let uid = (case info of None \<Rightarrow> PNone
                       | Some d \<Rightarrow> if d = [] then PNone else dict_get d ''id'')
            in if \<not> truthy uid then
                 showerror ''Failed to start'' ''Could not fetch user info.''
                   (s\<lparr>api := Some a, user_id := uid\<rparr>)
               else undefined)"
      using assms
      by (cases "strip (interval_var s) = []")
         (use u n in \<open>auto simp add: start_def Let_def dg split: sum.splits option.splits\<close>)
    show ?thesis
      unfolding st using assms(2)
      by (auto simp add: showerror_def dg)
  qed
  have nr: "\<not> running (start L ctor info_r now s)"
    and dl: "\<exists>title msg. dialogs (start L ctor info_r now s) = dialogs s @ [ShowError title msg]"
  proof -
    consider (nouser) "lstrip_at (strip (username_var s)) = []"
      | (noint) "lstrip_at (strip (username_var s)) \<noteq> []"
          "int_of_str L (if strip (interval_var s) = [] then ''60''
                         else strip (interval_var s)) = None"
      | (noctor) n x where "lstrip_at (strip (username_var s)) \<noteq> []"
          "int_of_str L (if strip (interval_var s) = [] then ''60''
                         else strip (interval_var s)) = Some n" "ctor = Inl x"
      | (lookup) n a' where "lstrip_at (strip (username_var s)) \<noteq> []"
          "int_of_str L (if strip (interval_var s) = [] then ''60''
                         else strip (interval_var s)) = Some n" "ctor = Inr a'"
      by (cases ctor) auto
    then have "\<not> running (start L ctor info_r now s) \<and>
      (\<exists>title msg. dialogs (start L ctor info_r now s) = dialogs s @ [ShowError title msg])"
    proof cases
      case nouser
      then show ?thesis using assms(1) by (simp add: start_def showerror_def)
    next
      case noint
      then show ?thesis using assms(1)
        by (cases "strip (interval_var s) = []") (simp_all add: start_def showerror_def)
    next
      case noctor
      then show ?thesis using assms(1)
        by (cases "strip (interval_var s) = []") (simp_all add: start_def showerror_def)
    next
      case lookup
      have "start L (Inr a') info_r now s =
        s\<lparr>api := Some a', user_id := ?uid,
           dialogs := dialogs s @ [ShowError ''Failed to start'' ?msg]\<rparr>"
      proof -
        have st: "start L (Inr a') info_r now s =
         (case info_r of
            Inl x \<Rightarrow> showerror ''Failed to start'' x (s\<lparr>api := Some a'\<rparr>)
          | Inr info \<Rightarrow>
              let uid = (case info of None \<Rightarrow> PNone
                         | Some d \<Rightarrow> if d = [] then PNone else dict_get d ''id'')
              in if \<not> truthy uid then
                   showerror ''Failed to start'' ''Could not fetch user info.''
                     (s\<lparr>api := Some a', user_id := uid\<rparr>)
                 else undefined)"
          using assms
          by (cases "strip (interval_var s) = []")
             (use lookup in \<open>auto simp add: start_def Let_def dg split: sum.splits option.splits\<close>)
        show ?thesis
          unfolding st using assms(2) by (auto simp add: showerror_def dg)
      qed
      with lookup(3) assms(1) show ?thesis by simp
    qed
    then show "\<not> running (start L ctor info_r now s)"
      and "\<exists>title msg. dialogs (start L ctor info_r now s) = dialogs s @ [ShowError title msg]"
      by blast+
  qed
  have ex: "start L ctor info_r now s =
      s\<lparr>api := Some a, user_id := ?uid,
         dialogs := dialogs s @ [ShowError ''Failed to start'' ?msg]\<rparr>"
    if "lstrip_at (strip (username_var s)) \<noteq> []"
      "int_of_str L (if strip (interval_var s) = [] then ''60'' else strip (interval_var s))
            \<noteq> None" "ctor = Inr a"
    using that reached by auto
  from start_failed[OF nr] start_frame[of L ctor info_r now s] nr dl ex assms(1)
  show ?thesis by blast
qed

theorem failed_lookup_aborts_start_witness:
  "\<not> running sample_initial \<and>
   \<not> running (start sample_lib (Inr sample_api) (Inl ''rate limited'') 100 sample_initial) \<and>
   threads (start sample_lib (Inr sample_api) (Inl ''rate limited'') 100 sample_initial) = [] \<and>
   q (start sample_lib (Inr sample_api) (Inl ''rate limited'') 100 sample_initial) = [] \<and>
   dialogs (start sample_lib (Inr sample_api) (Inl ''rate limited'') 100 sample_initial) =
     [ShowError ''Failed to start'' ''rate limited'']"
proof -
  have i: "\<not> running sample_initial" "threads sample_initial = []" "q sample_initial = []"
    by (simp_all add: sample_initial_def init_def)
  have f: "Inl ''rate limited'' = (Inl ''rate limited'' :: string + info_dict option) \<or>
      (Inl ''rate limited'' :: string + info_dict option) = Inr None \<or>
      (\<exists>d. (Inl ''rate limited'' :: string + info_dict option) = Inr (Some d) \<and>
           \<not> truthy (dict_get d ''id''))"
    by simp
  have d: "dialogs (start sample_lib (Inr sample_api) (Inl ''rate limited'') 100 sample_initial) =
     [ShowError ''Failed to start'' ''rate limited'']"
    by (simp add: sample_failed_start)
  from failed_lookup_aborts_start[OF i(1) f, of sample_lib "Inr sample_api" 100] i d
  show ?thesis by simp
qed

section \<open>The range counter\<close>

lemma fetch_page_ok:
  assumes "\<forall>f \<in> set sc. f = None \<or> (\<exists>r. f = Some (RateLimited r))"
  shows "(\<exists>r sc'. sc = Some (RateLimited r) # sc' \<and>
            fetch_page sc pages cursor = (Inl (RateLimited r), sc')) \<or>
         (\<exists>sc'. fetch_page sc pages cursor = (Inr (get_posts_page pages cursor), sc') \<and>
            length sc' \<le> length sc \<and> set sc' \<subseteq> set sc)"
  using assms by (induct sc pages cursor rule: fetch_page.induct) auto

lemma older_not_in_range:
  assumes "sorted_wrt (\<lambda>x y. created_at x > created_at y) (page @ rest)"
    and "page \<noteq> []" and "created_at (last page) < a"
  shows "filter (in_range a b) rest = []"
proof -
  have "last page \<in> set page" using assms(2) by simp
  with assms(1) have "\<forall>t \<in> set rest. created_at t < created_at (last page)"
    by (auto simp add: sorted_wrt_append)
  with assms(3) show ?thesis
    by (auto simp add: filter_empty_conv in_range_def)
qed

lemma descending_distinct: "sorted_wrt (>) (xs :: int list) \<Longrightarrow> distinct xs"
  by (induction xs) auto

lemma count_as_card:
  assumes "sorted_wrt (>) (map created_at hist)"
  shows "length (filter (in_range a b) hist) =
         card {t \<in> set (map created_at hist). a \<le> t \<and> t \<le> b}"
proof -
  have d: "distinct (map created_at hist)"
    using assms by (rule descending_distinct)
  have "{t \<in> set (map created_at hist). a \<le> t \<and> t \<le> b} =
        set (filter (\<lambda>t. a \<le> t \<and> t \<le> b) (map created_at hist))"
    by auto
  moreover have "distinct (filter (\<lambda>t. a \<le> t \<and> t \<le> b) (map created_at hist))"
    using d by (rule distinct_filter)
  ultimately have "card {t \<in> set (map created_at hist). a \<le> t \<and> t \<le> b} =
        length (filter (\<lambda>t. a \<le> t \<and> t \<le> b) (map created_at hist))"
    by (simp only: distinct_card)
  also have "\<dots> = length (filter (in_range a b) hist)"
  proof -
    have "in_range a b = (\<lambda>t. a \<le> created_at t \<and> created_at t \<le> b)"
      by (simp add: fun_eq_iff in_range_def)
    then show ?thesis by (simp add: filter_map comp_def)
  qed
  finally show ?thesis by simp
qed

lemma range_counter_correct:
  assumes "\<forall>f \<in> set sc. f = None \<or> (\<exists>r. f = Some (RateLimited r))"
    and "sorted_wrt (\<lambda>x y. created_at x > created_at y) (concat (drop cursor pages))"
  shows "range_counter pages sc cursor a b acc =
           Inr (acc + length (filter (in_range a b) (concat (drop cursor pages))))"
  using assms
proof (induction "length sc + (length pages - cursor)" arbitrary: sc cursor acc rule: less_induct)
  case less
  from fetch_page_ok[OF less.prems(1), of pages cursor]
  consider (limited) r sc' where "sc = Some (RateLimited r) # sc'"
      "fetch_page sc pages cursor = (Inl (RateLimited r), sc')"
    | (ok) sc' where "fetch_page sc pages cursor = (Inr (get_posts_page pages cursor), sc')"
      "length sc' \<le> length sc" "set sc' \<subseteq> set sc"
    by blast
  then show ?case
  proof cases
    case limited
    have "range_counter pages sc cursor a b acc = range_counter pages sc' cursor a b acc"
      by (subst range_counter.simps) (simp add: limited(2))
    also have "\<dots> = Inr (acc + length (filter (in_range a b) (concat (drop cursor pages))))"
      using less.prems limited(1) by (intro less.hyps) auto
    finally show ?thesis .
  next
    case ok
    show ?thesis
    proof (cases "cursor < length pages")
      case False
      then have "get_posts_page pages cursor = ([], None)" "drop cursor pages = []"
        by (simp_all add: get_posts_page_def)
      then show ?thesis
        by (subst range_counter.simps) (simp add: ok(1))
    next
      case True
      let ?page = "pages ! cursor"
      let ?rest = "concat (drop (Suc cursor) pages)"
      let ?acc' = "acc + length (filter (in_range a b) ?page)"
      have split: "concat (drop cursor pages) = ?page @ ?rest"
        using True by (simp add: Cons_nth_drop_Suc[symmetric])
      have srt: "sorted_wrt (\<lambda>x y. created_at x > created_at y) (?page @ ?rest)"
        using less.prems(2) split by simp
      show ?thesis
      proof (cases "?page \<noteq> [] \<and> created_at (last ?page) < a")
        case early: True
        then have "filter (in_range a b) ?rest = []"
          using older_not_in_range[OF srt] by blast
        moreover have "range_counter pages sc cursor a b acc = Inr ?acc'"
          using early True
          by (subst range_counter.simps) (simp add: ok(1) get_posts_page_def Let_def)
        ultimately show ?thesis by (simp add: split)
      next
        case go: False
        show ?thesis
        proof (cases "Suc cursor < length pages")
          case False
          then have "drop (Suc cursor) pages = []" by simp
          moreover have "range_counter pages sc cursor a b acc = Inr ?acc'"
            using go True False
            by (subst range_counter.simps) (auto simp add: ok(1) get_posts_page_def Let_def)
          ultimately show ?thesis by (simp add: split)
        next
          case more: True
          have "range_counter pages sc cursor a b acc =
                range_counter pages sc' (Suc cursor) a b ?acc'"
            using go True more
            by (subst range_counter.simps) (auto simp add: ok(1) get_posts_page_def Let_def)
          also have "\<dots> = Inr (?acc' + length (filter (in_range a b) ?rest))"
          proof (intro less.hyps)
            show "length sc' + (length pages - Suc cursor) < length sc + (length pages - cursor)"
              using ok(2) True by simp
            show "\<forall>f\<in>set sc'. f = None \<or> (\<exists>r. f = Some (RateLimited r))"
              using less.prems(1) ok(3) by blast
            show "sorted_wrt (\<lambda>x y. created_at x > created_at y) ?rest"
              using srt by (simp add: sorted_wrt_append)
          qed
          finally show ?thesis by (simp add: split)
        qed
      qed
    qed
  qed
qed

lemma worker_result:
  assumes "api s \<noteq> None"
  shows "worker (Inr n) i a b s =
           s\<lparr>q := q s @ [RangeMsg n], threads := (threads s)[i := RangeWorker a b False]\<rparr>"
  using assms by (auto simp add: worker_def set_thread_def q_put_def)

text \<open>
  Claim C1. Let the account's history be served newest first with pairwise different
  timestamps, in pages of any sizes, and let no fetch attempt fail other than by rate
  limiting (which is retried). Then \<open>count_tweets_in_range\<close> returns exactly the
  number of timestamps of the history that lie in \<open>[a, b]\<close>, for every \<open>a\<close> and
  \<open>b\<close> and hence for every valid pair \<open>a < b\<close>: \<open>0\<close> when no post lies in the
  range and the length of the history when all do. In every state the application
  can reach, the step of a live range worker with this result puts exactly one
  message, the range result with that count, on the queue and ends the worker, which
  takes no further step.
\<close>

theorem range_count_exact:
  assumes "sorted_wrt (>) (map created_at (concat (pages_of ds uid)))"
    and "\<forall>f \<in> set (script ds). f = None \<or> (\<exists>r. f = Some (RateLimited r))"
  shows "count_tweets_in_range ds uid a b =
           Inr (card {t \<in> set (map created_at (concat (pages_of ds uid))). a \<le> t \<and> t \<le> b}) \<and>
         ((\<forall>t \<in> set (map created_at (concat (pages_of ds uid))). t < a \<or> b < t) \<longrightarrow>
            count_tweets_in_range ds uid a b = Inr 0) \<and>
         ((\<forall>t \<in> set (map created_at (concat (pages_of ds uid))). a \<le> t \<and> t \<le> b) \<longrightarrow>
            count_tweets_in_range ds uid a b = Inr (length (concat (pages_of ds uid)))) \<and>
         (s = run L acts (init u0 iv0 rs0 re0) \<and> i < length (threads s) \<and>
          threads s ! i = RangeWorker a b True \<and> uid = user_id s \<longrightarrow>
            exec L (WorkerStep i (count_tweets_in_range ds uid a b)) s =
              s\<lparr>q := q s @
                   [RangeMsg (card {t \<in> set (map created_at (concat (pages_of ds uid))).
                                     a \<le> t \<and> t \<le> b})],
                 threads := (threads s)[i := RangeWorker a b False]\<rparr> \<and>
            \<not> thread_alive (threads (exec L (WorkerStep i (count_tweets_in_range ds uid a b)) s) ! i))"
proof -
  let ?hist = "concat (pages_of ds uid)"
  let ?n = "card {t \<in> set (map created_at ?hist). a \<le> t \<and> t \<le> b}"
  have srt: "sorted_wrt (\<lambda>x y. created_at x > created_at y) (concat (drop 0 (pages_of ds uid)))"
    using assms(1) by (simp add: sorted_wrt_map)
  have "range_counter (pages_of ds uid) (script ds) 0 a b 0 =
      Inr (0 + length (filter (in_range a b) (concat (drop 0 (pages_of ds uid)))))"
    using assms(2) srt by (rule range_counter_correct)
  then have len: "count_tweets_in_range ds uid a b = Inr (length (filter (in_range a b) ?hist))"
    by (simp add: count_tweets_in_range_def)
  then have c: "count_tweets_in_range ds uid a b = Inr ?n"
    using count_as_card[OF assms(1), of a b] by simp
  have z: "count_tweets_in_range ds uid a b = Inr 0"
    if "\<forall>t \<in> set (map created_at ?hist). t < a \<or> b < t"
  proof -
    from that have "filter (in_range a b) ?hist = []"
      by (auto simp add: filter_empty_conv in_range_def simp del: set_concat)
    with len show ?thesis by simp
  qed
  have f: "count_tweets_in_range ds uid a b = Inr (length ?hist)"
    if "\<forall>t \<in> set (map created_at ?hist). a \<le> t \<and> t \<le> b"
  proof -
    from that have "filter (in_range a b) ?hist = ?hist"
      by (auto simp add: filter_id_conv in_range_def simp del: set_concat)
    with len show ?thesis by simp
  qed
  have w: "exec L (WorkerStep i (count_tweets_in_range ds uid a b)) s =
              s\<lparr>q := q s @ [RangeMsg ?n],
                 threads := (threads s)[i := RangeWorker a b False]\<rparr> \<and>
           \<not> thread_alive (threads (exec L (WorkerStep i (count_tweets_in_range ds uid a b)) s) ! i)"
    if r: "s = run L acts (init u0 iv0 rs0 re0)" and i: "i < length (threads s)"
      and t: "threads s ! i = RangeWorker a b True"
  proof -
    from reachable_thread[OF r i] have "api s \<noteq> None" by simp
    from worker_result[OF this, of ?n i a b] i t show ?thesis
      by (simp add: c)
  qed
  from c z f w show ?thesis by blast
qed

lemma sample_history:
  "map created_at (concat (pages_of sample_source (PStr ''42''))) =
     [63905054400000000, 63905047200000000, 63905027400000000, 63905011200000000,
      63904978800000000]"
  by (simp add: sample_source_def sample_pages_def sample_tweet_def)

lemma sample_count_boot_run:
  "run sample_lib sample_count_boot
     (init ''@nasa'' ''5'' ''2026-01-26 09:00'' ''2026-01-26 18:00'') = sample_counting"
proof -
  have 1: "exec sample_lib
      (ClickStart (Inr sample_api) (Inr (Some [(''id'', PStr ''42'')])) 63905014800000000)
      (init ''@nasa'' ''5'' ''2026-01-26 09:00'' ''2026-01-26 18:00'') = sample_running"
    by (simp add: sample_running_def sample_initial_def)
  have 2: "exec sample_lib ClickCount sample_running = sample_counting"
    by (simp add: sample_counting_def)
  show ?thesis
    by (simp only: sample_count_boot_def run.simps 1 2)
qed

theorem range_count_exact_witness:
  "sorted_wrt (>) (map created_at (concat (pages_of sample_source (PStr ''42'')))) \<and>
   script sample_source = [None, Some (RateLimited 30), None] \<and>
   count_tweets_in_range sample_source (PStr ''42'') 63905014800000000 63905047200000000 = Inr 2 \<and>
   count_tweets_in_range sample_source (PStr ''42'') 63905014800000000 63905027399999999 = Inr 0 \<and>
   count_tweets_in_range sample_source (PStr ''42'') 63904978800000000 63905054400000000 = Inr 5 \<and>
   sample_counting = run sample_lib sample_count_boot
     (init ''@nasa'' ''5'' ''2026-01-26 09:00'' ''2026-01-26 18:00'') \<and>
   threads sample_counting ! 1 = RangeWorker 63905014800000000 63905047200000000 True \<and>
   q (exec sample_lib
        (WorkerStep 1 (count_tweets_in_range sample_source (PStr ''42'')
                         63905014800000000 63905047200000000)) sample_counting) = [RangeMsg 2]"
proof -
  let ?h = "map created_at (concat (pages_of sample_source (PStr ''42'')))"
  have h1: "sorted_wrt (>) ?h"
    unfolding sample_history by simp
  have sc: "script sample_source = [None, Some (RateLimited 30), None]"
    by (simp add: sample_source_def)
  then have h2: "\<forall>f \<in> set (script sample_source). f = None \<or> (\<exists>r. f = Some (RateLimited r))"
    by simp
  have s1: "{t \<in> set ?h. 63905014800000000 \<le> t \<and> t \<le> 63905047200000000} =
      {63905047200000000, 63905027400000000}"
    unfolding sample_history by auto
  have c1: "card {t \<in> set ?h. 63905014800000000 \<le> t \<and> t \<le> 63905047200000000} = 2"
    unfolding s1 by simp
  have e0: "\<forall>t \<in> set ?h. t < 63905014800000000 \<or> 63905027399999999 < t"
    unfolding sample_history by simp
  have e5: "\<forall>t \<in> set ?h. 63904978800000000 \<le> t \<and> t \<le> 63905054400000000"
    unfolding sample_history by simp
  have l5: "length (concat (pages_of sample_source (PStr ''42''))) = 5"
    by (simp add: sample_source_def sample_pages_def)
  have r: "sample_counting = run sample_lib sample_count_boot
     (init ''@nasa'' ''5'' ''2026-01-26 09:00'' ''2026-01-26 18:00'')"
    by (simp only: sample_count_boot_run)
  have f: "1 < length (threads sample_counting)"
    "threads sample_counting ! 1 = RangeWorker 63905014800000000 63905047200000000 True"
    "PStr ''42'' = user_id sample_counting" "q sample_counting = []"
    by (simp_all add: sample_counting_eq sample_running_eq sample_initial_def init_def)
  note t1 = range_count_exact[OF h1 h2, of 63905014800000000 63905047200000000
      sample_counting sample_lib sample_count_boot "''@nasa''" "''5''" "''2026-01-26 09:00''"
      "''2026-01-26 18:00''" 1, unfolded c1]
  note t0 = range_count_exact[OF h1 h2, of 63905014800000000 63905027399999999]
  note t5 = range_count_exact[OF h1 h2, of 63904978800000000 63905054400000000, unfolded l5]
  have a: "count_tweets_in_range sample_source (PStr ''42'') 63905014800000000
      63905047200000000 = Inr 2"
    using t1 by blast
  have b: "count_tweets_in_range sample_source (PStr ''42'') 63905014800000000
      63905027399999999 = Inr 0"
    using t0 e0 by blast
  have c: "count_tweets_in_range sample_source (PStr ''42'') 63904978800000000
      63905054400000000 = Inr 5"
    using t5 e5 by blast
  have w: "exec sample_lib
        (WorkerStep 1 (count_tweets_in_range sample_source (PStr ''42'')
                         63905014800000000 63905047200000000)) sample_counting =
      sample_counting\<lparr>q := q sample_counting @ [RangeMsg 2],
         threads := (threads sample_counting)
           [1 := RangeWorker 63905014800000000 63905047200000000 False]\<rparr>"
    using t1 r f(1,2,3) by blast
  have "q (exec sample_lib
        (WorkerStep 1 (count_tweets_in_range sample_source (PStr ''42'')
                         63905014800000000 63905047200000000)) sample_counting) = [RangeMsg 2]"
    unfolding w by (simp add: f(4))
  with h1 sc a b c r f(2) show ?thesis by blast
qed

end
